theory Spec2Isabelle
  imports Main
begin

section \<open>Strings and paths\<close>

text \<open>
  Python strings are modelled as \<open>string\<close>. The newline character and the path
  separator get names of their own.
\<close>

type_synonym path = string

definition newline :: char where
  "newline = CHR 0x0A"

definition slash :: char where
  "slash = CHR ''/''"

text \<open>Python's \<^verbatim>\<open>sub in s\<close> on strings.\<close>

fun startswith :: "string \<Rightarrow> string \<Rightarrow> bool" where
  "startswith s [] = True"
| "startswith [] (c # cs) = False"
| "startswith (x # xs) (c # cs) = (x = c \<and> startswith xs cs)"

fun str_in :: "string \<Rightarrow> string \<Rightarrow> bool" where
  "str_in sub [] = (sub = [])"
| "str_in sub (x # xs) = (startswith (x # xs) sub \<or> str_in sub xs)"

text \<open>Python's \<^verbatim>\<open>sep.join(xs)\<close>.\<close>

fun join :: "string \<Rightarrow> string list \<Rightarrow> string" where
  "join sep [] = []"
| "join sep [x] = x"
| "join sep (x # y # ys) = x @ sep @ join sep (y # ys)"

text \<open>Python's \<^verbatim>\<open>s.split("/")\<close>: the segments between separators, empty ones kept.\<close>

fun split_slash :: "string \<Rightarrow> string list" where
  "split_slash [] = [[]]"
| "split_slash (c # cs) =
     (if c = slash then [] # split_slash cs
      else (case split_slash cs of
              [] \<Rightarrow> [[c]]
            | seg # segs \<Rightarrow> (c # seg) # segs))"

subsection \<open>pathlib (pure POSIX paths)\<close>

text \<open>
  \<^verbatim>\<open>pathlib.Path(s)\<close> keeps a root and the list of components of \<open>s\<close>; empty
  components and \<^verbatim>\<open>.\<close> components are dropped. \<^verbatim>\<open>str\<close> joins them again, and
  gives \<^verbatim>\<open>.\<close> for the empty relative path.
\<close>

definition path_root :: "path \<Rightarrow> string" where
  "path_root s =
     (if startswith s ''//'' \<and> \<not> startswith s ''///'' then ''//''
      else if startswith s ''/'' then ''/''
      else [])"

definition path_parts :: "path \<Rightarrow> string list" where
  "path_parts s = filter (\<lambda>seg. seg \<noteq> [] \<and> seg \<noteq> ''.'') (split_slash s)"

definition path_str :: "string \<Rightarrow> string list \<Rightarrow> path" where
  "path_str root parts = (if root = [] \<and> parts = [] then ''.'' else root @ join ''/'' parts)"

definition path_parent :: "path \<Rightarrow> path" where
  "path_parent s = path_str (path_root s) (butlast (path_parts s))"

definition path_name :: "path \<Rightarrow> string" where
  "path_name s = (case path_parts s of [] \<Rightarrow> [] | _ \<Rightarrow> last (path_parts s))"

text \<open>\<^verbatim>\<open>name.rfind(".")\<close>: the index of the last dot, if there is one.\<close>

fun rfind_dot :: "string \<Rightarrow> nat option" where
  "rfind_dot [] = None"
| "rfind_dot (c # cs) =
     (case rfind_dot cs of
        Some i \<Rightarrow> Some (Suc i)
      | None \<Rightarrow> (if c = CHR ''.'' then Some 0 else None))"

definition path_suffix :: "path \<Rightarrow> string" where
  "path_suffix s =
     (let name = path_name s in
      case rfind_dot name of
        None \<Rightarrow> []
      | Some i \<Rightarrow> (if 0 < i \<and> i < length name - 1 then drop i name else []))"

definition path_stem :: "path \<Rightarrow> string" where
  "path_stem s =
     (let name = path_name s in
      case rfind_dot name of
        None \<Rightarrow> name
      | Some i \<Rightarrow> (if 0 < i \<and> i < length name - 1 then take i name else name))"

subsection \<open>Where a path string points\<close>

text \<open>
  The operating system resolves a path string to a location: whether it starts at the
  root, and its components, empty and \<^verbatim>\<open>.\<close> components skipped. Two strings with
  the same location name the same file. (Symbolic links and \<^verbatim>\<open>..\<close> are not
  resolved: \<^verbatim>\<open>..\<close> stays a component.)
\<close>

type_synonym location = "bool \<times> string list"

definition locate :: "path \<Rightarrow> location" where
  "locate s = (startswith s ''/'', path_parts s)"

section \<open>Regular expressions\<close>

text \<open>
  The fragment of Python's \<^verbatim>\<open>re\<close> the program uses. \<open>Dot\<close> is \<^verbatim>\<open>.\<close> (any
  character but a newline), \<open>Eol\<close> is \<^verbatim>\<open>$\<close> (the end of the string, or just before
  a newline that ends the string).
\<close>

datatype regex =
    Eps
  | Lit char
  | Dot
  | Eol
  | Seq regex regex
  | Alt regex regex
  | Star regex

text \<open>
  \<open>run r s\<close> lists what is left of \<open>s\<close> after each way of matching \<open>r\<close> at its
  start. A \<open>Star\<close> iteration that consumes nothing is not repeated.
\<close>

function run :: "regex \<Rightarrow> string \<Rightarrow> string list" where
  "run Eps s = [s]"
| "run (Lit c) s = (case s of [] \<Rightarrow> [] | x # xs \<Rightarrow> (if x = c then [xs] else []))"
| "run Dot s = (case s of [] \<Rightarrow> [] | x # xs \<Rightarrow> (if x \<noteq> newline then [xs] else []))"
| "run Eol s = (if s = [] \<or> s = [newline] then [s] else [])"
| "run (Seq a b) s = concat (map (run b) (run a s))"
| "run (Alt a b) s = run a s @ run b s"
| "run (Star a) s =
     s # concat (map (run (Star a)) (filter (\<lambda>t. length t < length s) (run a s)))"
  by pat_completeness auto
termination
  by (relation "measures [\<lambda>(r, s). size r, \<lambda>(r, s). length s]") auto

declare run.simps(7) [simp del]

definition re_match :: "regex \<Rightarrow> string \<Rightarrow> bool" where
  "re_match r s = (run r s \<noteq> [])"

fun lits :: "string \<Rightarrow> regex" where
  "lits [] = Eps"
| "lits (c # cs) = Seq (Lit c) (lits cs)"

text \<open>\<^verbatim>\<open>re.compile(r".*\.(wav|mp3|mp4|avi|mov|flv|mkv|wmv)$")\<close>\<close>

definition media_group :: regex where
  "media_group =
     Alt (lits ''wav'') (Alt (lits ''mp3'') (Alt (lits ''mp4'') (Alt (lits ''avi'')
       (Alt (lits ''mov'') (Alt (lits ''flv'') (Alt (lits ''mkv'') (lits ''wmv'')))))))"

definition default_pattern :: regex where
  "default_pattern = Seq (Star Dot) (Seq (Lit (CHR ''.'')) (Seq media_group Eol))"

section \<open>Python values and exceptions\<close>

text \<open>
  The values the program handles at run time: strings, the structured result of the
  transcription engine (a dictionary), and the \<^verbatim>\<open>CompletedProcess\<close> object of
  \<^verbatim>\<open>subprocess.run\<close> (its arguments and return code).
\<close>

datatype pyval =
    PNone
  | PStr string
  | PNum int
  | PList "pyval list"
  | PDict "(string \<times> pyval) list"
  | CompletedProcess "string list" int

datatype exn =
    RuntimeError string
  | TypeError string
  | KeyError string
  | AttributeError string
  | CalledProcessError int "string list"
  | OSError string
  | OtherError string

text \<open>\<^verbatim>\<open>except RuntimeError\<close> catches \<open>RuntimeError\<close> and nothing else of the above.\<close>

fun is_RuntimeError :: "exn \<Rightarrow> bool" where
  "is_RuntimeError (RuntimeError m) = True"
| "is_RuntimeError e = False"

text \<open>\<^verbatim>\<open>v[key]\<close> for a string key: only a dictionary can be indexed by a string.\<close>

fun subscript :: "pyval \<Rightarrow> string \<Rightarrow> exn + pyval" where
  "subscript (PDict kvs) key =
     (case map_of kvs key of None \<Rightarrow> Inl (KeyError key) | Some v \<Rightarrow> Inr v)"
| "subscript v key = Inl (TypeError ''indices must be integers'')"

section \<open>The world the program runs in\<close>

text \<open>
  What the external transcription executable does when it is run with a command line:
  it cannot be started, or it exits with a return code after writing its standard output.
\<close>

datatype proc_result =
    SpawnFailed string
  | Exited int string

text \<open>The lines the program prints (the elapsed time of the two completion lines left out).\<close>

datatype line =
    WorkingIn string string string
  | Created string
  | AttemptingCommand string
  | Attempting string
  | Skipping string
  | Forcing string
  | TranscribingCLI string
  | TranscribedComplete string
  | ConfirmedTranscribing string
  | ErrorLine exn
  | ErrorTranscribing string

text \<open>The calls made to the transcription engine, in order.\<close>

datatype engine_call =
    RunProcess "string list"
  | LoadModel string
  | ModelTranscribe string string

text \<open>
  \<^item> \<open>rglob d\<close>: the paths \<^verbatim>\<open>pathlib.Path(d).rglob("*")\<close> yields, as strings, in
    the order it yields them: every file and every directory below \<open>d\<close>;
  \<^item> \<open>files\<close>: the content of every file that exists, by location (directories are
    not recorded: a path exists when a file is there);
  \<^item> \<open>whisper_cli\<close>, \<open>load_model\<close>, \<open>model_transcribe\<close>: the transcription engine,
    as an executable and as a library (\<open>load_model m = Some e\<close>: loading raises \<open>e\<close>);
  \<^item> \<open>calls\<close>: the engine calls made so far; \<open>stdout\<close>: the lines printed so far.
  Opening a file for writing is taken to succeed, and the engine's answers do not depend
  on what the program has written.
\<close>

record world =
  rglob :: "path \<Rightarrow> path list"
  files :: "location \<rightharpoonup> string"
  whisper_cli :: "string list \<Rightarrow> proc_result"
  load_model :: "string \<Rightarrow> exn option"
  model_transcribe :: "string \<Rightarrow> path \<Rightarrow> exn + pyval"
  calls :: "engine_call list"
  stdout :: "line list"

definition print :: "line \<Rightarrow> world \<Rightarrow> world" where
  "print l w = w\<lparr>stdout := stdout w @ [l]\<rparr>"

definition call :: "engine_call \<Rightarrow> world \<Rightarrow> world" where
  "call c w = w\<lparr>calls := calls w @ [c]\<rparr>"

text \<open>\<^verbatim>\<open>pathlib.Path(p).exists()\<close>\<close>

definition path_exists :: "world \<Rightarrow> path \<Rightarrow> bool" where
  "path_exists w p = (files w (locate p) \<noteq> None)"

text \<open>\<^verbatim>\<open>open(p, "w")\<close>: the file is created, or emptied when it exists.\<close>

definition open_w :: "path \<Rightarrow> world \<Rightarrow> world" where
  "open_w p w = w\<lparr>files := (files w)(locate p \<mapsto> [])\<rparr>"

text \<open>Text arriving in the open file \<open>p\<close>: appended to what it holds.\<close>

definition append_to :: "path \<Rightarrow> string \<Rightarrow> world \<Rightarrow> world" where
  "append_to p s w =
     w\<lparr>files := (files w)(locate p \<mapsto> (case files w (locate p) of None \<Rightarrow> s | Some old \<Rightarrow> old @ s))\<rparr>"

text \<open>\<^verbatim>\<open>f.write(v)\<close> on a text file: \<open>v\<close> must be a string.\<close>

definition file_write :: "path \<Rightarrow> pyval \<Rightarrow> world \<Rightarrow> world \<times> (exn + unit)" where
  "file_write p v w =
     (case v of
        PStr s \<Rightarrow> (append_to p s w, Inr ())
      | _ \<Rightarrow> (w, Inl (TypeError ''write() argument must be str'')))"

section \<open>Discovery\<close>

text \<open>
  The \<^verbatim>\<open>pattern\<close> argument is a compiled regular expression, or, from the command
  line, a plain string, which has no \<^verbatim>\<open>match\<close> method.
\<close>

datatype pattern_arg =
    Compiled regex
  | Plain string

fun pattern_match :: "pattern_arg \<Rightarrow> string \<Rightarrow> exn + bool" where
  "pattern_match (Compiled r) s = Inr (re_match r s)"
| "pattern_match (Plain t) s = Inl (AttributeError ''str object has no attribute match'')"

text \<open>The comprehension \<^verbatim>\<open>[str(p) for p in ... if pattern.match(str(p))]\<close>.\<close>

fun matching :: "pattern_arg \<Rightarrow> path list \<Rightarrow> exn + path list" where
  "matching pat [] = Inr []"
| "matching pat (p # ps) =
     (case pattern_match pat p of
        Inl e \<Rightarrow> Inl e
      | Inr b \<Rightarrow>
          (case matching pat ps of
             Inl e \<Rightarrow> Inl e
           | Inr rest \<Rightarrow> Inr (if b then p # rest else rest)))"

definition get_files_recursive ::
  "world \<Rightarrow> path \<Rightarrow> pattern_arg option \<Rightarrow> string option \<Rightarrow> (string \<Rightarrow> string) option
     \<Rightarrow> exn + string list" where
  "get_files_recursive w directory pattern ignore action =
     (let pattern = (case pattern of None \<Rightarrow> Compiled default_pattern | Some pat \<Rightarrow> pat) in
      case matching pattern (rglob w directory) of
        Inl e \<Rightarrow> Inl e
      | Inr found \<Rightarrow>
          (let kept = (case ignore of
                         None \<Rightarrow> found
                       | Some ig \<Rightarrow> filter (\<lambda>f. \<not> str_in ig f) found)
           in Inr (case action of
                     None \<Rightarrow> kept
                   | Some act \<Rightarrow> map act kept)))"

section \<open>The transcription driver\<close>

text \<open>
  The external-process strategy. The output file is opened for writing, the command runs
  with the file as its standard output, and \<^verbatim>\<open>check=True\<close> raises on a non-zero
  return code.
\<close>

definition transcribe_file_cli ::
  "world \<Rightarrow> path \<Rightarrow> string \<Rightarrow> string \<Rightarrow> world \<times> (exn + pyval)" where
  "transcribe_file_cli w file modelType language =
     (let root_dir = path_parent file;
          file_name_stem = path_stem file;
          file_type = path_suffix file;
          w = print (WorkingIn root_dir file_name_stem file_type) w;
          output_file = root_dir @ ''/'' @ file_name_stem @ file_type @ ''.transcribed.txt'';
          w = print (Created output_file) w;
          cmd_list = [''whisper'', file, ''--model'', modelType, ''--language'', language];
          w = print (AttemptingCommand (join '' '' cmd_list)) w;
          w = open_w output_file w;
          w = call (RunProcess cmd_list) w
      in case whisper_cli w cmd_list of
           SpawnFailed m \<Rightarrow> (w, Inl (OSError m))
         | Exited rc out \<Rightarrow>
             (let w = append_to output_file out w in
              if rc \<noteq> 0 then (w, Inl (CalledProcessError rc cmd_list))
              else (w, Inr (CompletedProcess cmd_list rc))))"

text \<open>The body of the \<^verbatim>\<open>try\<close> block of \<^verbatim>\<open>transcribe_file\<close>: the in-process strategy.\<close>

definition try_transcribe ::
  "world \<Rightarrow> path \<Rightarrow> string \<Rightarrow> path \<Rightarrow> world \<times> (exn + pyval)" where
  "try_transcribe w file modelType transcribed_file =
     (let w = print (ConfirmedTranscribing file) w;
          w = call (LoadModel modelType) w
      in case load_model w modelType of
           Some e \<Rightarrow> (w, Inl e)
         | None \<Rightarrow>
             (let w = call (ModelTranscribe modelType file) w in
              case model_transcribe w modelType file of
                Inl e \<Rightarrow> (w, Inl e)
              | Inr result \<Rightarrow>
                  (let w = open_w transcribed_file w in
                   case subscript result ''text'' of
                     Inl e \<Rightarrow> (w, Inl e)
                   | Inr text \<Rightarrow>
                       (case file_write transcribed_file text w of
                          (w, Inl e) \<Rightarrow> (w, Inl e)
                        | (w, Inr u) \<Rightarrow>
                            (let w = print (TranscribedComplete transcribed_file) w;
                                 w = open_w (transcribed_file @ ''.json'') w
                             in case file_write (transcribed_file @ ''.json'') result w of
                                  (w, Inl e) \<Rightarrow> (w, Inl e)
                                | (w, Inr u) \<Rightarrow> (w, Inr (PStr transcribed_file)))))))"

text \<open>
  \<^verbatim>\<open>transcribe_file(file, modelType="large", force=True, climode=True)\<close>: the skip
  policy, the choice of strategy, and the handler that turns a \<open>RuntimeError\<close> of the
  in-process strategy into the input path as return value.
\<close>

definition transcribe_file ::
  "world \<Rightarrow> path \<Rightarrow> string \<Rightarrow> bool \<Rightarrow> bool \<Rightarrow> world \<times> (exn + pyval)" where
  "transcribe_file w file modelType force climode =
     (let w = print (Attempting file) w;
          transcribed_file = file @ ''.transcribed.txt''
      in if path_exists w transcribed_file \<and> \<not> force then
           (print (Skipping file) w, Inr (PStr transcribed_file))
         else
           (let w = (if force then print (Forcing file) w else w) in
            if climode then
              (let w = print (TranscribingCLI file) w in
               case transcribe_file_cli w file modelType ''en'' of
                 (w, Inl e) \<Rightarrow> (w, Inl e)
               | (w, Inr tfile_cli) \<Rightarrow>
                   (print (TranscribedComplete transcribed_file) w, Inr tfile_cli))
            else
              (case try_transcribe w file modelType transcribed_file of
                 (w, Inl e) \<Rightarrow>
                   (if is_RuntimeError e then
                      (print (ErrorTranscribing file) (print (ErrorLine e) w), Inr (PStr file))
                    else (w, Inl e))
               | (w, Inr v) \<Rightarrow> (w, Inr v))))"

text \<open>
  The \<^verbatim>\<open>transcribe\<close> command: the loop over the discovered files. An exception
  of \<^verbatim>\<open>transcribe_file\<close> is not handled and ends the loop. From the command line
  \<^verbatim>\<open>pattern\<close> is a string or \<^verbatim>\<open>None\<close>, and \<^verbatim>\<open>ignore\<close> is a string.
\<close>

fun transcribe_loop ::
  "world \<Rightarrow> path list \<Rightarrow> string \<Rightarrow> bool \<Rightarrow> bool \<Rightarrow> world \<times> (exn + unit)" where
  "transcribe_loop w [] model force climode = (w, Inr ())"
| "transcribe_loop w (f # fs) model force climode =
     (case transcribe_file w f model force climode of
        (w', Inl e) \<Rightarrow> (w', Inl e)
      | (w', Inr v) \<Rightarrow> transcribe_loop w' fs model force climode)"

definition transcribe ::
  "world \<Rightarrow> path \<Rightarrow> string option \<Rightarrow> string \<Rightarrow> string \<Rightarrow> bool \<Rightarrow> bool
     \<Rightarrow> world \<times> (exn + unit)" where
  "transcribe w directory pattern ignore model force climode =
     (case get_files_recursive w directory (map_option Plain pattern) (Some ignore) None of
        Inl e \<Rightarrow> (w, Inl e)
      | Inr fs \<Rightarrow> transcribe_loop w fs model force climode)"

section \<open>Notions the properties are stated with\<close>

subsection \<open>Paths\<close>

text \<open>
  A path string names a file when its last segment is a name: it is not empty, does not
  end in a separator, and its last segment is not \<^verbatim>\<open>.\<close>.
\<close>

definition names_file :: "path \<Rightarrow> bool" where
  "names_file p = (last (split_slash p) \<noteq> [] \<and> last (split_slash p) \<noteq> ''.'')"

text \<open>A path component as pathlib keeps it.\<close>

definition part_ok :: "string \<Rightarrow> bool" where
  "part_ok seg = (seg \<noteq> [] \<and> seg \<noteq> ''.'' \<and> slash \<notin> set seg)"

subsection \<open>Media paths\<close>

definition media_extensions :: "string list" where
  "media_extensions =
     [''wav'', ''mp3'', ''mp4'', ''avi'', ''mov'', ''flv'', ''mkv'', ''wmv'']"

text \<open>Python's \<^verbatim>\<open>s.endswith(t)\<close>.\<close>

definition endswith :: "string \<Rightarrow> string \<Rightarrow> bool" where
  "endswith s t = startswith (rev s) (rev t)"

text \<open>The string without the one newline that may end it.\<close>

definition chomp :: "string \<Rightarrow> string" where
  "chomp s = (if s \<noteq> [] \<and> last s = newline then butlast s else s)"

text \<open>
  A media path: apart from one final newline, the path string holds no newline and ends
  in a dot and one of the media extensions, in lower case.
\<close>

definition media_path :: "path \<Rightarrow> bool" where
  "media_path p =
     (newline \<notin> set (chomp p) \<and> (\<exists>e \<in> set media_extensions. endswith (chomp p) (''.'' @ e)))"

subsection \<open>Observing a run\<close>

text \<open>The engine calls that transcribe a file (loading a model does not).\<close>

fun is_run :: "engine_call \<Rightarrow> bool" where
  "is_run (RunProcess cmd) = True"
| "is_run (ModelTranscribe m f) = True"
| "is_run (LoadModel m) = False"

definition transcription_runs :: "world \<Rightarrow> nat" where
  "transcription_runs w = length (filter is_run (calls w))"

text \<open>The command line of the external-process strategy.\<close>

definition whisper_command :: "path \<Rightarrow> string \<Rightarrow> string \<Rightarrow> string list" where
  "whisper_command file modelType language =
     [''whisper'', file, ''--model'', modelType, ''--language'', language]"

text \<open>The output path as \<^verbatim>\<open>transcribe_file_cli\<close> builds it from the parts of the input path.\<close>

definition cli_output_file :: "path \<Rightarrow> path" where
  "cli_output_file file =
     path_parent file @ ''/'' @ path_stem file @ path_suffix file @ ''.transcribed.txt''"

text \<open>What a run of the executable wrote to its standard output.\<close>

definition captured_stdout :: "proc_result \<Rightarrow> string" where
  "captured_stdout r = (case r of SpawnFailed m \<Rightarrow> [] | Exited rc out \<Rightarrow> out)"

text \<open>
  The files \<^verbatim>\<open>transcribe_file\<close> was called on, read off the printed lines: its first
  statement prints \<open>Attempting\<close>, and nothing else does.
\<close>

fun attempted :: "line list \<Rightarrow> path list" where
  "attempted [] = []"
| "attempted (Attempting f # ls) = f # attempted ls"
| "attempted (l # ls) = attempted ls"

text \<open>The world after the first prints of \<^verbatim>\<open>transcribe_file\<close>, past the skip test.\<close>

definition announce :: "path \<Rightarrow> bool \<Rightarrow> world \<Rightarrow> world" where
  "announce file force w =
     (if force then print (Forcing file) (print (Attempting file) w)
      else print (Attempting file) w)"

text \<open>The world after the model was loaded, and after it was run on the file.\<close>

definition loaded :: "path \<Rightarrow> string \<Rightarrow> world \<Rightarrow> world" where
  "loaded file m w = call (LoadModel m) (print (ConfirmedTranscribing file) w)"

definition transcribed :: "path \<Rightarrow> string \<Rightarrow> world \<Rightarrow> world" where
  "transcribed file m w = call (ModelTranscribe m file) (loaded file m w)"

subsection \<open>The files of a run and their states\<close>

text \<open>
  The states of a file in a run of the \<^verbatim>\<open>transcribe\<close> command: not reached yet, or
  brought to one of three outcomes by its call of \<^verbatim>\<open>transcribe_file\<close>.
\<close>

datatype file_state = Pending | Skipped | Transcribed | Failed

text \<open>The world after \<^verbatim>\<open>transcribe_file\<close> was called on the files of a list, one after the other.\<close>

definition world_after :: "world \<Rightarrow> path list \<Rightarrow> string \<Rightarrow> bool \<Rightarrow> bool \<Rightarrow> world" where
  "world_after w fs m force climode =
     foldl (\<lambda>w f. fst (transcribe_file w f m force climode)) w fs"

text \<open>
  What the call on the \<open>i\<close>-th file of the list returns or raises, made in the world
  that the calls on the files before it leave.
\<close>

definition call_result :: "world \<Rightarrow> path list \<Rightarrow> string \<Rightarrow> bool \<Rightarrow> bool \<Rightarrow> nat \<Rightarrow> exn + pyval" where
  "call_result w fs m force climode i =
     snd (transcribe_file (world_after w (take i fs) m force climode) (fs ! i) m force climode)"

text \<open>
  The state that call brings its file to: \<open>Skipped\<close> when the output exists and force is
  false; otherwise \<open>Failed\<close> when the call raises or returns the input path (the value
  returned after a \<open>RuntimeError\<close>), and \<open>Transcribed\<close> when it returns anything else.
\<close>

definition call_state :: "world \<Rightarrow> path list \<Rightarrow> string \<Rightarrow> bool \<Rightarrow> bool \<Rightarrow> nat \<Rightarrow> file_state" where
  "call_state w fs m force climode i =
     (if path_exists (world_after w (take i fs) m force climode) (fs ! i @ ''.transcribed.txt'')
         \<and> \<not> force
      then Skipped
      else (case call_result w fs m force climode i of
              Inl e \<Rightarrow> Failed
            | Inr v \<Rightarrow> (if v = PStr (fs ! i) then Failed else Transcribed)))"

text \<open>The state of the \<open>i\<close>-th file once the first \<open>n\<close> files of the list were processed.\<close>

definition file_state ::
  "world \<Rightarrow> path list \<Rightarrow> string \<Rightarrow> bool \<Rightarrow> bool \<Rightarrow> nat \<Rightarrow> nat \<Rightarrow> file_state" where
  "file_state w fs m force climode n i =
     (if i < n then call_state w fs m force climode i else Pending)"

subsection \<open>Example worlds\<close>

text \<open>
  A directory \<^verbatim>\<open>media\<close> with five entries and no transcript yet; the executable
  prints a transcript and exits with 0; the library returns a result dictionary.
\<close>

definition demo_world :: world where
  "demo_world =
     \<lparr>rglob = (\<lambda>d. if d = ''media''
                   then [''media/skip_me/a.wav'', ''media/b.wav'', ''media/c.WAV'',
                         ''media/skip_me.txt'', ''media/talks/d.mp4'']
                   else []),
      files = Map.empty,
      whisper_cli = (\<lambda>cmd. Exited 0 ''hello world''),
      load_model = (\<lambda>m. None),
      model_transcribe =
        (\<lambda>m f. Inr (PDict [(''text'', PStr ''hello from the model''), (''language'', PStr ''en'')])),
      calls = [],
      stdout = []\<rparr>"

text \<open>The same, with a transcript of \<^verbatim>\<open>media/b.wav\<close> from an earlier run.\<close>

definition transcribed_world :: world where
  "transcribed_world =
     demo_world\<lparr>files := [locate ''media/b.wav.transcribed.txt'' \<mapsto> ''old text'']\<rparr>"

text \<open>The executable writes part of a transcript and exits with 1.\<close>

definition failing_cli_world :: world where
  "failing_cli_world = demo_world\<lparr>whisper_cli := (\<lambda>cmd. Exited 1 ''partial'')\<rparr>"

text \<open>The library cannot run the model: it raises \<open>RuntimeError\<close>.\<close>

definition broken_model_world :: world where
  "broken_model_world =
     transcribed_world\<lparr>model_transcribe := (\<lambda>m f. Inl (RuntimeError ''out of memory''))\<rparr>"

text \<open>A media file in a directory whose name holds a newline.\<close>

definition newline_path :: path where
  "newline_path = ''media/take'' @ [newline] @ ''1/a.wav''"

definition newline_world :: world where
  "newline_world = demo_world\<lparr>rglob := (\<lambda>d. if d = ''media'' then [newline_path] else [])\<rparr>"

section \<open>Lemmas: strings, paths and patterns\<close>

lemma startswith_iff: "startswith s sub \<longleftrightarrow> (\<exists>t. s = sub @ t)"
  by (induction s sub rule: startswith.induct) auto

lemma split_slash_nonempty: "split_slash s \<noteq> []"
  by (induction s) (auto split: list.splits)

lemma split_slash_Cons:
  "split_slash (c # cs) =
     (if c = slash then [] # split_slash cs
      else (c # hd (split_slash cs)) # tl (split_slash cs))"
  using split_slash_nonempty [of cs] by (cases "split_slash cs") auto

lemma split_slash_no_slash: "seg \<in> set (split_slash s) \<Longrightarrow> slash \<notin> set seg"
proof (induction s arbitrary: seg)
  case Nil
  then show ?case by simp
next
  case (Cons c cs)
  then show ?case
    using split_slash_nonempty [of cs]
    by (cases "split_slash cs") (auto split: if_splits)
qed

lemma split_slash_plain: "slash \<notin> set t \<Longrightarrow> split_slash t = [t]"
  by (induction t) auto

lemma split_slash_append_slash: "split_slash (s @ slash # t) = split_slash s @ split_slash t"
proof (induction s)
  case Nil
  then show ?case by simp
next
  case (Cons c cs)
  then show ?case
    using split_slash_nonempty [of cs] split_slash_nonempty [of "cs @ slash # t"]
    by (cases "split_slash cs") auto
qed

lemma split_slash_append_plain:
  "slash \<notin> set t \<Longrightarrow>
   split_slash (s @ t) = butlast (split_slash s) @ [last (split_slash s) @ t]"
proof (induction s)
  case Nil
  then show ?case by (simp add: split_slash_plain)
next
  case (Cons c cs)
  then show ?case
    using split_slash_nonempty [of cs]
    by (cases "split_slash cs") (auto simp: split_slash_nonempty)
qed

lemma split_slash_join:
  "ps \<noteq> [] \<Longrightarrow> \<forall>p \<in> set ps. slash \<notin> set p \<Longrightarrow> split_slash (join [slash] ps) = ps"
proof (induction ps)
  case Nil
  then show ?case by simp
next
  case (Cons x xs)
  show ?case
  proof (cases xs)
    case Nil
    with Cons.prems show ?thesis by (simp add: split_slash_plain)
  next
    case (Cons y ys)
    with Cons.IH Cons.prems have "split_slash (join [slash] xs) = xs" by simp
    with Cons Cons.prems show ?thesis
      by (simp add: split_slash_append_slash split_slash_plain)
  qed
qed

lemma slash_string: "''/'' = [slash]"
  by (simp add: slash_def)

lemma path_parts_ok: "seg \<in> set (path_parts s) \<Longrightarrow> part_ok seg"
  by (auto simp: path_parts_def part_ok_def dest: split_slash_no_slash)

lemma path_parts_join:
  "\<forall>p \<in> set ps. part_ok p \<Longrightarrow> path_parts (join [slash] ps) = ps"
proof (cases ps)
  case Nil
  then show ?thesis by (simp add: path_parts_def)
next
  case (Cons x xs)
  assume ok: "\<forall>p \<in> set ps. part_ok p"
  then have "split_slash (join [slash] ps) = ps"
    using Cons by (intro split_slash_join) (auto simp: part_ok_def)
  moreover have "filter (\<lambda>seg. seg \<noteq> [] \<and> seg \<noteq> ''.'') ps = ps"
    using ok by (auto simp: part_ok_def filter_id_conv)
  ultimately show ?thesis by (simp add: path_parts_def)
qed

lemma path_parts_slash: "path_parts (slash # s) = path_parts s"
  by (simp add: path_parts_def)

lemma path_parts_append_slash: "path_parts (s @ slash # t) = path_parts s @ path_parts t"
  by (simp add: path_parts_def split_slash_append_slash)

lemma path_parts_plain: "part_ok t \<Longrightarrow> path_parts t = [t]"
  by (simp add: path_parts_def part_ok_def split_slash_plain)

lemma path_root_cases: "path_root s = [] \<or> path_root s = [slash] \<or> path_root s = [slash, slash]"
  by (simp add: path_root_def slash_def)

lemma path_parts_path_str:
  assumes "\<forall>p \<in> set ps. part_ok p" and "r = [] \<or> r = [slash] \<or> r = [slash, slash]"
  shows "path_parts (path_str r ps) = ps"
proof (cases "r = [] \<and> ps = []")
  case True
  then show ?thesis by (simp add: path_str_def path_parts_def slash_def)
next
  case False
  then have "path_str r ps = r @ join [slash] ps"
    by (auto simp: path_str_def slash_string)
  then show ?thesis
    using assms by (auto simp: path_parts_slash path_parts_join)
qed

lemma path_stem_suffix: "path_stem s @ path_suffix s = path_name s"
  by (simp add: path_stem_def path_suffix_def Let_def split: option.splits)

lemma names_file_last:
  assumes "names_file f"
  shows "part_ok (last (split_slash f))"
    and "path_parts f = filter (\<lambda>seg. seg \<noteq> [] \<and> seg \<noteq> ''.'') (butlast (split_slash f)) @ [last (split_slash f)]"
    and "path_name f = last (split_slash f)"
proof -
  let ?l = "last (split_slash f)"
  have mem: "?l \<in> set (split_slash f)"
    by (simp add: split_slash_nonempty)
  from assms show ok: "part_ok ?l"
    using split_slash_no_slash [OF mem] by (simp add: names_file_def part_ok_def)
  have "split_slash f = butlast (split_slash f) @ [?l]"
    by (simp add: split_slash_nonempty)
  then have "path_parts f = filter (\<lambda>seg. seg \<noteq> [] \<and> seg \<noteq> ''.'') (butlast (split_slash f) @ [?l])"
    by (simp add: path_parts_def)
  then show parts: "path_parts f = filter (\<lambda>seg. seg \<noteq> [] \<and> seg \<noteq> ''.'') (butlast (split_slash f)) @ [?l]"
    using ok by (simp add: part_ok_def)
  then have "path_parts f \<noteq> []" and "last (path_parts f) = ?l"
    by simp_all
  then show "path_name f = ?l"
    by (cases "path_parts f") (simp_all add: path_name_def)
qed

lemma part_ok_append: "part_ok l \<Longrightarrow> slash \<notin> set t \<Longrightarrow> t \<noteq> [] \<Longrightarrow> part_ok (l @ t)"
  by (cases l; cases t) (auto simp: part_ok_def)

lemma startswith_slash: "startswith s ''/'' \<longleftrightarrow> (s \<noteq> [] \<and> hd s = slash)"
  by (cases s) (auto simp: slash_def)

lemma hd_join: "ps \<noteq> [] \<Longrightarrow> hd ps \<noteq> [] \<Longrightarrow> hd (join sep ps) = hd (hd ps)"
  by (induction sep ps rule: join.induct) auto

lemma join_nonempty: "ps \<noteq> [] \<Longrightarrow> hd ps \<noteq> [] \<Longrightarrow> join sep ps \<noteq> []"
  by (induction sep ps rule: join.induct) auto

lemma path_parent_abs: "startswith (path_parent f @ t) ''/'' \<longleftrightarrow> startswith f ''/''"
proof (cases "startswith f ''/''")
  case True
  then have "path_root f = ''/'' \<or> path_root f = ''//''"
    by (simp add: path_root_def)
  then show ?thesis
    using True by (auto simp: path_parent_def path_str_def)
next
  case False
  then have root: "path_root f = []"
    by (cases f) (auto simp: path_root_def)
  show ?thesis
  proof (cases "butlast (path_parts f) = []")
    case True
    then show ?thesis using False root by (simp add: path_parent_def path_str_def)
  next
    case ne: False
    let ?ps = "butlast (path_parts f)"
    have "hd ?ps \<in> set (path_parts f)"
      using ne by (metis hd_in_set in_set_butlastD)
    then have ok: "part_ok (hd ?ps)" by (rule path_parts_ok)
    then have "hd (join ''/'' ?ps) = hd (hd ?ps)" "join ''/'' ?ps \<noteq> []"
      using ne by (auto simp: hd_join join_nonempty part_ok_def)
    moreover have "hd (hd ?ps) \<noteq> slash"
      using ok by (cases "hd ?ps") (auto simp: part_ok_def)
    ultimately have "\<not> startswith (join ''/'' ?ps @ t) ''/''"
      by (simp add: startswith_slash)
    then show ?thesis
      using False root ne by (simp add: path_parent_def path_str_def)
  qed
qed

lemma locate_output_file:
  assumes "names_file f"
  shows "locate (cli_output_file f) = locate (f @ ''.transcribed.txt'')"
proof -
  let ?l = "last (split_slash f)"
  let ?sfx = "''.transcribed.txt''"
  let ?keep = "filter (\<lambda>seg. seg \<noteq> [] \<and> seg \<noteq> ''.'') (butlast (split_slash f))"
  note nf = names_file_last [OF assms]
  have sfx: "slash \<notin> set ?sfx" "?sfx \<noteq> []"
    by (simp_all add: slash_def)
  have ok: "part_ok (?l @ ?sfx)"
    using nf(1) sfx by (rule part_ok_append)
  have f_ne: "f \<noteq> []"
    using assms by (auto simp: names_file_def)
  have out: "path_parent f @ ''/'' @ path_stem f @ path_suffix f @ ?sfx
               = path_parent f @ slash # (?l @ ?sfx)"
    using path_stem_suffix [of f] nf(3) by (simp add: slash_def)
  have "path_parts (path_parent f) = butlast (path_parts f)"
    unfolding path_parent_def
    by (rule path_parts_path_str) (auto intro: path_parts_ok dest: in_set_butlastD simp: path_root_cases)
  then have left: "path_parts (path_parent f @ slash # (?l @ ?sfx)) = ?keep @ [?l @ ?sfx]"
    using ok nf(2) by (simp add: path_parts_append_slash path_parts_plain)
  have "split_slash (f @ ?sfx) = butlast (split_slash f) @ [?l @ ?sfx]"
    using sfx(1) by (rule split_slash_append_plain)
  then have right: "path_parts (f @ ?sfx) = ?keep @ [?l @ ?sfx]"
    using ok unfolding path_parts_def by (simp add: part_ok_def)
  have "startswith (path_parent f @ slash # (?l @ ?sfx)) ''/'' = startswith f ''/''"
    by (rule path_parent_abs)
  moreover have "startswith (f @ ?sfx) ''/'' = startswith f ''/''"
    using f_ne by (cases f) auto
  ultimately show ?thesis
    unfolding cli_output_file_def out locate_def using left right by simp
qed

lemma str_in_iff: "str_in sub s \<longleftrightarrow> (\<exists>a b. s = a @ sub @ b)"
proof (induction s)
  case Nil
  then show ?case by auto
next
  case (Cons x xs)
  show ?case
  proof
    assume "str_in sub (x # xs)"
    then consider "startswith (x # xs) sub" | "str_in sub xs" by auto
    then show "\<exists>a b. x # xs = a @ sub @ b"
    proof cases
      case 1
      then obtain t where "x # xs = sub @ t" by (auto simp: startswith_iff)
      then have "x # xs = [] @ sub @ t" by simp
      then show ?thesis by blast
    next
      case 2
      then obtain a b where "xs = a @ sub @ b" using Cons.IH by auto
      then have "x # xs = (x # a) @ sub @ b" by simp
      then show ?thesis by blast
    qed
  next
    assume "\<exists>a b. x # xs = a @ sub @ b"
    then obtain a b where ab: "x # xs = a @ sub @ b" by auto
    show "str_in sub (x # xs)"
    proof (cases a)
      case Nil
      with ab have "startswith (x # xs) sub" by (auto simp: startswith_iff)
      then show ?thesis by simp
    next
      case (Cons y ys)
      with ab have "xs = ys @ sub @ b" by simp
      then have "str_in sub xs" using Cons.IH by auto
      then show ?thesis by simp
    qed
  qed
qed

lemma matching_Compiled: "matching (Compiled r) ps = Inr (filter (re_match r) ps)"
  by (induction ps) auto

lemma matching_Plain:
  "matching (Plain t) ps =
     (if ps = [] then Inr [] else Inl (AttributeError ''str object has no attribute match''))"
  by (cases ps) auto

lemma run_lits: "set (run (lits e) s) = {t. s = e @ t}"
proof (induction e arbitrary: s)
  case Nil
  then show ?case by auto
next
  case (Cons c cs)
  then show ?case by (cases s) auto
qed

lemma run_star_dot_Nil: "run (Star Dot) [] = [[]]"
  by (subst run.simps(7)) simp

lemma run_star_dot_Cons:
  "run (Star Dot) (c # cs) = (c # cs) # (if c = newline then [] else run (Star Dot) cs)"
  by (subst run.simps(7)) simp

lemma run_star_dot: "set (run (Star Dot) s) = {t. \<exists>a. s = a @ t \<and> newline \<notin> set a}"
proof (induction s)
  case Nil
  then show ?case by (auto simp: run_star_dot_Nil)
next
  case (Cons c cs)
  show ?case
  proof (cases "c = newline")
    case True
    then show ?thesis by (auto simp: run_star_dot_Cons Cons_eq_append_conv)
  next
    case False
    then have "set (run (Star Dot) (c # cs)) = insert (c # cs) (set (run (Star Dot) cs))"
      by (simp add: run_star_dot_Cons)
    also have "\<dots> = {t. \<exists>a. c # cs = a @ t \<and> newline \<notin> set a}"
      using False by (auto simp: Cons.IH Cons_eq_append_conv)
    finally show ?thesis .
  qed
qed

lemma endswith_iff: "endswith s t \<longleftrightarrow> (\<exists>a. s = a @ t)"
proof -
  have "(\<exists>u. rev s = rev t @ u) \<longleftrightarrow> (\<exists>a. s = a @ t)"
  proof
    assume "\<exists>u. rev s = rev t @ u"
    then obtain u where "rev s = rev t @ u" by auto
    then have "s = rev u @ t" by (metis rev_append rev_rev_ident)
    then show "\<exists>a. s = a @ t" by blast
  next
    assume "\<exists>a. s = a @ t"
    then show "\<exists>u. rev s = rev t @ u" by auto
  qed
  then show ?thesis by (simp add: endswith_def startswith_iff)
qed

lemma run_media_group: "set (run media_group s) = {t. \<exists>e \<in> set media_extensions. s = e @ t}"
  unfolding media_group_def media_extensions_def
  by (simp only: run.simps(6) set_append run_lits) auto

lemma media_extension_chars:
  "e \<in> set media_extensions \<Longrightarrow> e \<noteq> [] \<and> last e \<noteq> newline \<and> newline \<notin> set e"
  by (auto simp: media_extensions_def newline_def)

lemma run_default_pattern:
  "set (run default_pattern s) =
     {r. \<exists>a e. s = a @ ''.'' @ e @ r \<and> newline \<notin> set a \<and> e \<in> set media_extensions
            \<and> (r = [] \<or> r = [newline])}"
proof -
  have lit: "set (run (Lit c) u) = {t. u = c # t}" for c u
    by (cases u) auto
  have eol: "set (run Eol u) = {t. t = u \<and> (u = [] \<or> u = [newline])}" for u
    by auto
  have seq: "set (run (Seq a b) u) = (\<Union>t \<in> set (run a u). set (run b t))" for a b u
    by simp
  show ?thesis
    unfolding default_pattern_def seq run_star_dot lit run_media_group eol
    by auto
qed

lemma re_match_default: "re_match default_pattern p \<longleftrightarrow> media_path p"
proof
  assume "re_match default_pattern p"
  then have "set (run default_pattern p) \<noteq> {}"
    by (simp add: re_match_def)
  then obtain a e r where p: "p = a @ ''.'' @ e @ r" and a: "newline \<notin> set a"
    and e: "e \<in> set media_extensions" and r: "r = [] \<or> r = [newline]"
    unfolding run_default_pattern by blast
  from e have e': "e \<noteq> []" "last e \<noteq> newline" "newline \<notin> set e"
    using media_extension_chars by auto
  have "chomp p = a @ ''.'' @ e"
    using r p e' by (auto simp: chomp_def butlast_append)
  moreover have "newline \<notin> set (a @ ''.'' @ e)"
    using a e' by (simp add: newline_def)
  moreover have "endswith (a @ ''.'' @ e) (''.'' @ e)"
    unfolding endswith_iff by blast
  ultimately show "media_path p"
    using e by (auto simp: media_path_def)
next
  assume "media_path p"
  then obtain e where nl: "newline \<notin> set (chomp p)" and e: "e \<in> set media_extensions"
    and "endswith (chomp p) (''.'' @ e)"
    by (auto simp: media_path_def)
  then obtain a where q: "chomp p = a @ ''.'' @ e"
    unfolding endswith_iff by blast
  have "p = chomp p \<or> p = chomp p @ [newline]"
    by (auto simp: chomp_def) (metis append_butlast_last_id)
  then have "\<exists>r. p = a @ ''.'' @ e @ r \<and> (r = [] \<or> r = [newline])"
    using q by auto
  moreover have "newline \<notin> set a"
    using nl q by simp
  ultimately have "set (run default_pattern p) \<noteq> {}"
    unfolding run_default_pattern using e by blast
  then show "re_match default_pattern p"
    by (simp add: re_match_def)
qed

lemma path_exists_print [simp]: "path_exists (print l w) p = path_exists w p"
  by (simp add: path_exists_def print_def)

lemma cli_result:
  "snd (transcribe_file_cli w file m lang) =
     (case whisper_cli w (whisper_command file m lang) of
        SpawnFailed msg \<Rightarrow> Inl (OSError msg)
      | Exited rc out \<Rightarrow>
          (if rc \<noteq> 0 then Inl (CalledProcessError rc (whisper_command file m lang))
           else Inr (CompletedProcess (whisper_command file m lang) rc)))"
  by (simp add: transcribe_file_cli_def whisper_command_def Let_def print_def call_def open_w_def
      split: proc_result.splits)

lemma cli_files:
  "files (fst (transcribe_file_cli w file m lang)) =
     (files w)(locate (cli_output_file file)
        \<mapsto> captured_stdout (whisper_cli w (whisper_command file m lang)))"
  by (simp add: transcribe_file_cli_def cli_output_file_def whisper_command_def captured_stdout_def Let_def print_def
      call_def open_w_def append_to_def split: proc_result.splits)

lemma cli_calls:
  "calls (fst (transcribe_file_cli w file m lang)) = calls w @ [RunProcess (whisper_command file m lang)]"
  by (simp add: transcribe_file_cli_def whisper_command_def Let_def print_def
      call_def open_w_def append_to_def split: proc_result.splits)

lemma cli_stdout:
  "stdout (fst (transcribe_file_cli w file m lang)) =
     stdout w @ [WorkingIn (path_parent file) (path_stem file) (path_suffix file),
                 Created (cli_output_file file),
                 AttemptingCommand (join '' '' (whisper_command file m lang))]"
  by (simp add: transcribe_file_cli_def cli_output_file_def whisper_command_def Let_def print_def
      call_def open_w_def append_to_def split: proc_result.splits)

lemma cli_env:
  "whisper_cli (fst (transcribe_file_cli w file m lang)) = whisper_cli w"
  "load_model (fst (transcribe_file_cli w file m lang)) = load_model w"
  "model_transcribe (fst (transcribe_file_cli w file m lang)) = model_transcribe w"
  "rglob (fst (transcribe_file_cli w file m lang)) = rglob w"
  by (simp_all add: transcribe_file_cli_def whisper_command_def Let_def print_def
      call_def open_w_def append_to_def split: proc_result.splits)

lemma attempted_append: "attempted (xs @ ys) = attempted xs @ attempted ys"
  by (induction xs rule: attempted.induct) auto

lemma transcribe_file_skip:
  "path_exists w (file @ ''.transcribed.txt'') \<Longrightarrow>
   transcribe_file w file m False climode =
     (print (Skipping file) (print (Attempting file) w), Inr (PStr (file @ ''.transcribed.txt'')))"
  by (simp add: transcribe_file_def Let_def)

lemma transcribe_file_cli_branch:
  "force \<or> \<not> path_exists w (file @ ''.transcribed.txt'') \<Longrightarrow>
   transcribe_file w file m force True =
     (case transcribe_file_cli (print (TranscribingCLI file) (announce file force w)) file m ''en'' of
        (w', Inl e) \<Rightarrow> (w', Inl e)
      | (w', Inr v) \<Rightarrow> (print (TranscribedComplete (file @ ''.transcribed.txt'')) w', Inr v))"
  by (auto simp: transcribe_file_def Let_def announce_def)

lemma transcribe_file_try_branch:
  "force \<or> \<not> path_exists w (file @ ''.transcribed.txt'') \<Longrightarrow>
   transcribe_file w file m force False =
     (case try_transcribe (announce file force w) file m (file @ ''.transcribed.txt'') of
        (w', Inl e) \<Rightarrow>
          (if is_RuntimeError e then
             (print (ErrorTranscribing file) (print (ErrorLine e) w'), Inr (PStr file))
           else (w', Inl e))
      | (w', Inr v) \<Rightarrow> (w', Inr v))"
  by (auto simp: transcribe_file_def Let_def announce_def)

lemma announce_fields [simp]:
  "files (announce file force w) = files w"
  "calls (announce file force w) = calls w"
  "whisper_cli (announce file force w) = whisper_cli w"
  "load_model (announce file force w) = load_model w"
  "model_transcribe (announce file force w) = model_transcribe w"
  "rglob (announce file force w) = rglob w"
  "stdout (announce file force w) = stdout w @ Attempting file # (if force then [Forcing file] else [])"
  by (simp_all add: announce_def print_def)

lemma print_fields [simp]:
  "files (print l w) = files w"
  "calls (print l w) = calls w"
  "whisper_cli (print l w) = whisper_cli w"
  "load_model (print l w) = load_model w"
  "model_transcribe (print l w) = model_transcribe w"
  "rglob (print l w) = rglob w"
  "stdout (print l w) = stdout w @ [l]"
  by (simp_all add: print_def)

lemma call_fields [simp]:
  "files (call c w) = files w"
  "calls (call c w) = calls w @ [c]"
  "whisper_cli (call c w) = whisper_cli w"
  "load_model (call c w) = load_model w"
  "model_transcribe (call c w) = model_transcribe w"
  "rglob (call c w) = rglob w"
  "stdout (call c w) = stdout w"
  by (simp_all add: call_def)

lemma open_w_fields [simp]:
  "files (open_w p w) = (files w)(locate p \<mapsto> [])"
  "calls (open_w p w) = calls w"
  "whisper_cli (open_w p w) = whisper_cli w"
  "load_model (open_w p w) = load_model w"
  "model_transcribe (open_w p w) = model_transcribe w"
  "rglob (open_w p w) = rglob w"
  "stdout (open_w p w) = stdout w"
  by (simp_all add: open_w_def)

lemma append_to_fields [simp]:
  "files (append_to p s w) =
     (files w)(locate p \<mapsto> (case files w (locate p) of None \<Rightarrow> s | Some old \<Rightarrow> old @ s))"
  "calls (append_to p s w) = calls w"
  "whisper_cli (append_to p s w) = whisper_cli w"
  "load_model (append_to p s w) = load_model w"
  "model_transcribe (append_to p s w) = model_transcribe w"
  "rglob (append_to p s w) = rglob w"
  "stdout (append_to p s w) = stdout w"
  by (simp_all add: append_to_def)

section \<open>Lemmas: the driver\<close>

text \<open>The external-process branch of the driver, field by field.\<close>

lemma driver_cli_files:
  assumes "force \<or> \<not> path_exists w (file @ ''.transcribed.txt'')" and "names_file file"
  shows "files (fst (transcribe_file w file m force True)) =
           (files w)(locate (file @ ''.transcribed.txt'')
              \<mapsto> captured_stdout (whisper_cli w (whisper_command file m ''en'')))"
proof -
  let ?w0 = "print (TranscribingCLI file) (announce file force w)"
  obtain w' r where run: "transcribe_file_cli ?w0 file m ''en'' = (w', r)"
    by fastforce
  have "files w' = files (fst (transcribe_file_cli ?w0 file m ''en''))"
    by (simp add: run)
  then have "files w' = (files w)(locate (file @ ''.transcribed.txt'')
              \<mapsto> captured_stdout (whisper_cli w (whisper_command file m ''en'')))"
    unfolding cli_files locate_output_file [OF assms(2)] by simp
  then show ?thesis
    unfolding transcribe_file_cli_branch [OF assms(1)] run
    by (cases r) simp_all
qed

lemma driver_cli_calls:
  assumes "force \<or> \<not> path_exists w (file @ ''.transcribed.txt'')"
  shows "calls (fst (transcribe_file w file m force True)) =
           calls w @ [RunProcess (whisper_command file m ''en'')]"
proof -
  let ?w0 = "print (TranscribingCLI file) (announce file force w)"
  obtain w' r where run: "transcribe_file_cli ?w0 file m ''en'' = (w', r)"
    by fastforce
  have "calls w' = calls (fst (transcribe_file_cli ?w0 file m ''en''))"
    by (simp add: run)
  then have "calls w' = calls w @ [RunProcess (whisper_command file m ''en'')]"
    unfolding cli_calls by simp
  then show ?thesis
    unfolding transcribe_file_cli_branch [OF assms(1)] run
    by (cases r) simp_all
qed

lemma driver_cli_result:
  assumes "force \<or> \<not> path_exists w (file @ ''.transcribed.txt'')"
  shows "snd (transcribe_file w file m force True) =
     (case whisper_cli w (whisper_command file m ''en'') of
        SpawnFailed msg \<Rightarrow> Inl (OSError msg)
      | Exited rc out \<Rightarrow>
          (if rc \<noteq> 0 then Inl (CalledProcessError rc (whisper_command file m ''en''))
           else Inr (CompletedProcess (whisper_command file m ''en'') rc)))"
proof -
  let ?w0 = "print (TranscribingCLI file) (announce file force w)"
  obtain w' r where run: "transcribe_file_cli ?w0 file m ''en'' = (w', r)"
    by fastforce
  have "r = snd (transcribe_file_cli ?w0 file m ''en'')"
    by (simp add: run)
  then have r: "r = (case whisper_cli w (whisper_command file m ''en'') of
        SpawnFailed msg \<Rightarrow> Inl (OSError msg)
      | Exited rc out \<Rightarrow>
          (if rc \<noteq> 0 then Inl (CalledProcessError rc (whisper_command file m ''en''))
           else Inr (CompletedProcess (whisper_command file m ''en'') rc)))"
    unfolding cli_result by simp
  have "snd (transcribe_file w file m force True) = r"
    unfolding transcribe_file_cli_branch [OF assms(1)] run
    by (cases r) simp_all
  with r show ?thesis by simp
qed

text \<open>The in-process strategy.\<close>

lemma subscript_Inr: "subscript v key = Inr x \<Longrightarrow> \<exists>kvs. v = PDict kvs"
  by (cases v) auto

lemma file_write_PDict: "file_write p (PDict kvs) w = (w, Inl (TypeError ''write() argument must be str''))"
  by (simp add: file_write_def)

lemma file_write_PStr: "file_write p (PStr s) w = (append_to p s w, Inr ())"
  by (simp add: file_write_def)

lemma file_write_cases:
  "(\<exists>s. v = PStr s \<and> file_write p v w = (append_to p s w, Inr ())) \<or>
   file_write p v w = (w, Inl (TypeError ''write() argument must be str''))"
  by (cases v) (simp_all add: file_write_def)

lemma try_load_raises:
  "load_model w m = Some e \<Longrightarrow> try_transcribe w file m tf = (loaded file m w, Inl e)"
  by (simp add: try_transcribe_def Let_def loaded_def)

lemma try_model_raises:
  "load_model w m = None \<Longrightarrow> model_transcribe w m file = Inl e \<Longrightarrow>
   try_transcribe w file m tf = (transcribed file m w, Inl e)"
  by (simp add: try_transcribe_def Let_def loaded_def transcribed_def)

lemma try_no_text:
  "load_model w m = None \<Longrightarrow> model_transcribe w m file = Inr res \<Longrightarrow>
   subscript res ''text'' = Inl e \<Longrightarrow>
   try_transcribe w file m tf = (open_w tf (transcribed file m w), Inl e)"
  by (simp add: try_transcribe_def Let_def loaded_def transcribed_def)

lemma try_text_not_str:
  "load_model w m = None \<Longrightarrow> model_transcribe w m file = Inr res \<Longrightarrow>
   subscript res ''text'' = Inr v \<Longrightarrow> \<forall>t. v \<noteq> PStr t \<Longrightarrow>
   try_transcribe w file m tf =
     (open_w tf (transcribed file m w), Inl (TypeError ''write() argument must be str''))"
  using file_write_cases [of v tf "open_w tf (transcribed file m w)"]
  by (auto simp: try_transcribe_def Let_def loaded_def transcribed_def)

lemma try_text_written:
  "load_model w m = None \<Longrightarrow> model_transcribe w m file = Inr res \<Longrightarrow>
   subscript res ''text'' = Inr (PStr t) \<Longrightarrow>
   try_transcribe w file m tf =
     (open_w (tf @ ''.json'')
        (print (TranscribedComplete tf) (append_to tf t (open_w tf (transcribed file m w)))),
      Inl (TypeError ''write() argument must be str''))"
  by (auto simp: try_transcribe_def Let_def loaded_def transcribed_def file_write_PStr
      file_write_PDict dest!: subscript_Inr)

lemma try_cases:
  obtains (load_raises) e where "load_model w m = Some e"
  | (model_raises) e where "load_model w m = None" "model_transcribe w m f = Inl e"
  | (no_text) res e where "load_model w m = None" "model_transcribe w m f = Inr res"
      "subscript res ''text'' = Inl e"
  | (text_not_str) res v where "load_model w m = None" "model_transcribe w m f = Inr res"
      "subscript res ''text'' = Inr v" "\<forall>t. v \<noteq> PStr t"
  | (text_written) res t where "load_model w m = None" "model_transcribe w m f = Inr res"
      "subscript res ''text'' = Inr (PStr t)"
proof (cases "load_model w m")
  case None
  show ?thesis
  proof (cases "model_transcribe w m f")
    case (Inl e)
    with None show ?thesis by (rule model_raises)
  next
    case (Inr res)
    show ?thesis
    proof (cases "subscript res ''text''")
      case (Inl e)
      with None Inr show ?thesis by (rule no_text)
    next
      case v: (Inr v)
      show ?thesis
      proof (cases "\<exists>t. v = PStr t")
        case True
        then show ?thesis using None Inr v text_written by blast
      next
        case False
        then show ?thesis using None Inr v text_not_str by blast
      qed
    qed
  qed
next
  case (Some e)
  then show ?thesis by (rule load_raises)
qed

lemma try_never_returns: "snd (try_transcribe w file m tf) \<noteq> Inr v"
  by (rule try_cases [where w = w and m = m and f = "file"])
    (simp_all add: try_load_raises try_model_raises try_no_text try_text_not_str try_text_written)

lemma try_stdout: "attempted (stdout (fst (try_transcribe w file m tf))) = attempted (stdout w)"
  by (rule try_cases [where w = w and m = m and f = "file"])
    (simp_all add: try_load_raises try_model_raises try_no_text try_text_not_str try_text_written
      loaded_def transcribed_def attempted_append)

section \<open>Discovery: the claims\<close>

lemma demo_listing:
  "get_files_recursive demo_world ''media'' None (Some ''skip_me'') None
     = Inr [''media/b.wav'', ''media/talks/d.mp4'']"
  by (simp add: get_files_recursive_def matching_Compiled re_match_default demo_world_def
      media_path_def chomp_def endswith_def media_extensions_def newline_def)

text \<open>
  Claim C1, as amended. With the default pattern and no transform,
  \<^verbatim>\<open>get_files_recursive(D, ignore=...)\<close> returns, without raising, exactly the paths that
  the recursive walk of \<open>D\<close> yields (files and directories alike) and that are media
  paths: the path string, apart from one final newline, holds no newline and ends in a
  dot and one of wav, mp3, mp4, avi, mov, flv, mkv, wmv in lower case. When an ignore
  string is given, every path that contains it is left out.
\<close>

theorem discovery_default_pattern:
  "\<exists>fs. get_files_recursive w D None ignore None = Inr fs \<and>
     set fs = {p \<in> set (rglob w D).
                 media_path p \<and> (\<forall>ig a b. ignore = Some ig \<longrightarrow> p \<noteq> a @ ig @ b)}"
proof (cases ignore)
  case None
  then show ?thesis
    by (auto simp: get_files_recursive_def matching_Compiled re_match_default)
next
  case (Some ig)
  then show ?thesis
    by (auto simp: get_files_recursive_def matching_Compiled re_match_default str_in_iff)
qed

text \<open>
  In the example directory, with \<^verbatim>\<open>ignore="skip_me"\<close>: \<^verbatim>\<open>media/b.wav\<close> is returned,
  the upper-case \<^verbatim>\<open>media/c.WAV\<close> and the ignored \<^verbatim>\<open>media/skip_me/a.wav\<close> are not.
\<close>

theorem discovery_default_pattern_witness:
  "\<exists>fs. get_files_recursive demo_world ''media'' None (Some ''skip_me'') None = Inr fs
     \<and> ''media/b.wav'' \<in> set fs \<and> ''media/c.WAV'' \<notin> set fs
     \<and> ''media/skip_me/a.wav'' \<notin> set fs"
proof -
  obtain fs where fs: "get_files_recursive demo_world ''media'' None (Some ''skip_me'') None = Inr fs"
    and "set fs = {p \<in> set (rglob demo_world ''media'').
                 media_path p \<and> (\<forall>ig a b. Some ''skip_me'' = Some ig \<longrightarrow> p \<noteq> a @ ig @ b)}"
    using discovery_default_pattern [of demo_world "''media''" "Some ''skip_me''"] by blast
  then have "fs = [''media/b.wav'', ''media/talks/d.mp4'']"
    by (simp add: demo_listing)
  with fs show ?thesis by simp
qed

text \<open>
  Claim C1 as stated fails: the pattern is matched against the whole path string, and
  \<^verbatim>\<open>.*\<close> does not cross a newline. The file \<^verbatim>\<open>a.wav\<close> in a directory whose name
  holds a newline is below \<^verbatim>\<open>media\<close> and its name ends in \<^verbatim>\<open>.wav\<close>, yet it is
  not returned.
\<close>

theorem discovery_newline_counterexample:
  "newline_path \<in> set (rglob newline_world ''media'')
   \<and> path_name newline_path = ''a.wav''
   \<and> endswith (path_name newline_path) ''.wav''
   \<and> get_files_recursive newline_world ''media'' None None None = Inr []"
proof -
  have name: "path_name newline_path = ''a.wav''"
    by (simp add: path_name_def path_parts_def newline_path_def slash_def newline_def)
  have "\<not> media_path newline_path"
    by (simp add: media_path_def chomp_def newline_path_def newline_def)
  then have "get_files_recursive newline_world ''media'' None None None = Inr []"
    by (simp add: get_files_recursive_def matching_Compiled re_match_default
        newline_world_def demo_world_def)
  then show ?thesis
    using name by (simp add: newline_world_def demo_world_def endswith_def)
qed

text \<open>
  Claim C8. No path returned by \<^verbatim>\<open>get_files_recursive(dir, ignore=ig)\<close> contains the
  ignore string \<open>ig\<close> (for the claim, \<^verbatim>\<open>skip_me\<close>), whatever the pattern is and
  whether or not the path matches it: a returned path is never of the form
  \<open>a @ ig @ b\<close>.
\<close>

theorem exclusion_filter:
  assumes "get_files_recursive w dir pattern (Some ig) None = Inr fs" and "f \<in> set fs"
  shows "f \<noteq> a @ ig @ b"
proof -
  obtain found where "fs = filter (\<lambda>f. \<not> str_in ig f) found"
    using assms(1)
    by (auto simp: get_files_recursive_def Let_def split: sum.splits)
  with assms(2) have "\<not> str_in ig f" by simp
  then show ?thesis by (auto simp: str_in_iff)
qed

text \<open>
  In the example directory \<^verbatim>\<open>ignore="skip_me"\<close> leaves two paths, and neither
  contains \<^verbatim>\<open>skip_me\<close>.
\<close>

theorem exclusion_filter_witness:
  "get_files_recursive demo_world ''media'' None (Some ''skip_me'') None
     = Inr [''media/b.wav'', ''media/talks/d.mp4'']
   \<and> (\<forall>a b. ''media/b.wav'' \<noteq> a @ ''skip_me'' @ b)
   \<and> (\<forall>a b. ''media/talks/d.mp4'' \<noteq> a @ ''skip_me'' @ b)"
  using exclusion_filter [OF demo_listing] by (simp add: demo_listing)

section \<open>Lemmas: the driver as a whole\<close>

lemma locate_json_neq: "locate (p @ ''.json'') \<noteq> locate p"
proof -
  let ?P = "\<lambda>seg. seg \<noteq> [] \<and> seg \<noteq> ''.''"
  let ?l = "last (split_slash p)"
  have "slash \<notin> set ''.json''" by (simp add: slash_def)
  then have "split_slash (p @ ''.json'') = butlast (split_slash p) @ [?l @ ''.json'']"
    by (rule split_slash_append_plain)
  then have a: "path_parts (p @ ''.json'') = filter ?P (butlast (split_slash p)) @ [?l @ ''.json'']"
    by (simp add: path_parts_def)
  have "split_slash p = butlast (split_slash p) @ [?l]"
    by (simp add: split_slash_nonempty)
  then have "path_parts p = filter ?P (butlast (split_slash p) @ [?l])"
    by (simp add: path_parts_def)
  then have b: "path_parts p = filter ?P (butlast (split_slash p)) @ (if ?P ?l then [?l] else [])"
    by simp
  have "path_parts (p @ ''.json'') \<noteq> path_parts p"
    unfolding a b by simp
  then show ?thesis by (simp add: locate_def)
qed

lemma try_env:
  "whisper_cli (fst (try_transcribe w file m tf)) = whisper_cli w"
  "load_model (fst (try_transcribe w file m tf)) = load_model w"
  "model_transcribe (fst (try_transcribe w file m tf)) = model_transcribe w"
  by (rule try_cases [where w = w and m = m and f = "file"];
      simp add: try_load_raises try_model_raises try_no_text try_text_not_str try_text_written
        loaded_def transcribed_def)+

lemma try_calls:
  "load_model w m = None \<Longrightarrow>
   calls (fst (try_transcribe w file m tf)) = calls w @ [LoadModel m, ModelTranscribe m file]"
  by (rule try_cases [where w = w and m = m and f = "file"];
      simp add: try_model_raises try_no_text try_text_not_str try_text_written
        loaded_def transcribed_def)

lemma try_files_returned:
  "load_model w m = None \<Longrightarrow> model_transcribe w m file = Inr res \<Longrightarrow>
   files (fst (try_transcribe w file m tf)) (locate tf) \<noteq> None"
  by (rule try_cases [where w = w and m = m and f = "file"];
      simp add: try_no_text try_text_not_str try_text_written locate_json_neq
        loaded_def transcribed_def)

lemma driver_try_fst:
  assumes "force \<or> \<not> path_exists w (file @ ''.transcribed.txt'')"
  shows "files (fst (transcribe_file w file m force False))
           = files (fst (try_transcribe (announce file force w) file m (file @ ''.transcribed.txt'')))"
    and "calls (fst (transcribe_file w file m force False))
           = calls (fst (try_transcribe (announce file force w) file m (file @ ''.transcribed.txt'')))"
proof -
  obtain w' r where run:
    "try_transcribe (announce file force w) file m (file @ ''.transcribed.txt'') = (w', r)"
    by fastforce
  show "files (fst (transcribe_file w file m force False))
           = files (fst (try_transcribe (announce file force w) file m (file @ ''.transcribed.txt'')))"
    unfolding transcribe_file_try_branch [OF assms] run
    by (cases r) simp_all
  show "calls (fst (transcribe_file w file m force False))
           = calls (fst (try_transcribe (announce file force w) file m (file @ ''.transcribed.txt'')))"
    unfolding transcribe_file_try_branch [OF assms] run
    by (cases r) simp_all
qed

lemma driver_try_text_written:
  assumes "force \<or> \<not> path_exists w (file @ ''.transcribed.txt'')"
    and "load_model w m = None" and "model_transcribe w m file = Inr res"
    and "subscript res ''text'' = Inr (PStr t)"
  shows "transcribe_file w file m force False =
     (open_w (file @ ''.transcribed.txt'' @ ''.json'')
        (print (TranscribedComplete (file @ ''.transcribed.txt''))
           (append_to (file @ ''.transcribed.txt'') t
              (open_w (file @ ''.transcribed.txt'') (transcribed file m (announce file force w))))),
      Inl (TypeError ''write() argument must be str''))"
proof -
  have "try_transcribe (announce file force w) file m (file @ ''.transcribed.txt'') =
     (open_w ((file @ ''.transcribed.txt'') @ ''.json'')
        (print (TranscribedComplete (file @ ''.transcribed.txt''))
           (append_to (file @ ''.transcribed.txt'') t
              (open_w (file @ ''.transcribed.txt'') (transcribed file m (announce file force w))))),
      Inl (TypeError ''write() argument must be str''))"
    using assms(2-4) by (intro try_text_written) simp_all
  then show ?thesis
    unfolding transcribe_file_try_branch [OF assms(1)] by simp
qed

lemma driver_try_raises:
  assumes "force \<or> \<not> path_exists w (file @ ''.transcribed.txt'')"
    and "load_model w m = Some e \<or> (load_model w m = None \<and> model_transcribe w m file = Inl e)"
    and "is_RuntimeError e"
  shows "snd (transcribe_file w file m force False) = Inr (PStr file)"
    and "files (fst (transcribe_file w file m force False)) = files w"
  using assms(2,3) unfolding transcribe_file_try_branch [OF assms(1)]
  by (auto simp: try_load_raises try_model_raises loaded_def transcribed_def)

lemma in_process_never_returns_output_path:
  assumes "force \<or> \<not> path_exists w (file @ ''.transcribed.txt'')"
  shows "snd (transcribe_file w file m force False) \<noteq> Inr (PStr (file @ ''.transcribed.txt''))"
proof -
  obtain w' r where run:
    "try_transcribe (announce file force w) file m (file @ ''.transcribed.txt'') = (w', r)"
    by fastforce
  have "r \<noteq> Inr v" for v
    using try_never_returns [of "announce file force w" "file" m "file @ ''.transcribed.txt''" v]
    by (simp add: run)
  then obtain e where "r = Inl e" by (cases r) auto
  then show ?thesis
    unfolding transcribe_file_try_branch [OF assms] run by simp
qed

lemma transcribe_file_attempted:
  "attempted (stdout (fst (transcribe_file w file m force climode))) = attempted (stdout w) @ [file]"
proof (cases "path_exists w (file @ ''.transcribed.txt'') \<and> \<not> force")
  case True
  then show ?thesis
    by (simp add: transcribe_file_def Let_def attempted_append)
next
  case False
  then have go: "force \<or> \<not> path_exists w (file @ ''.transcribed.txt'')" by auto
  show ?thesis
  proof (cases climode)
    case True
    let ?w0 = "print (TranscribingCLI file) (announce file force w)"
    obtain w' r where run: "transcribe_file_cli ?w0 file m ''en'' = (w', r)"
      by fastforce
    have "stdout w' = stdout (fst (transcribe_file_cli ?w0 file m ''en''))"
      by (simp add: run)
    then have "attempted (stdout w') = attempted (stdout w) @ [file]"
      unfolding cli_stdout by (simp add: attempted_append)
    moreover have "transcribe_file w file m force climode = transcribe_file w file m force True"
      using True by simp
    ultimately show ?thesis
      unfolding transcribe_file_cli_branch [OF go] run
      by (cases r) (simp_all add: attempted_append)
  next
    case False
    let ?w0 = "announce file force w"
    obtain w' r where run: "try_transcribe ?w0 file m (file @ ''.transcribed.txt'') = (w', r)"
      by fastforce
    have "stdout w' = stdout (fst (try_transcribe ?w0 file m (file @ ''.transcribed.txt'')))"
      by (simp add: run)
    then have "attempted (stdout w') = attempted (stdout w) @ [file]"
      by (simp add: try_stdout attempted_append)
    moreover have "transcribe_file w file m force climode = transcribe_file w file m force False"
      using False by simp
    ultimately show ?thesis
      unfolding transcribe_file_try_branch [OF go] run
      by (cases r) (simp_all add: attempted_append)
  qed
qed

lemma transcribe_file_whisper_cli:
  "whisper_cli (fst (transcribe_file w file m force True)) = whisper_cli w"
proof (cases "path_exists w (file @ ''.transcribed.txt'') \<and> \<not> force")
  case True
  then show ?thesis
    by (simp add: transcribe_file_def Let_def)
next
  case False
  then have go: "force \<or> \<not> path_exists w (file @ ''.transcribed.txt'')" by auto
  let ?w0 = "print (TranscribingCLI file) (announce file force w)"
  obtain w' r where run: "transcribe_file_cli ?w0 file m ''en'' = (w', r)"
    by fastforce
  have "whisper_cli w' = whisper_cli (fst (transcribe_file_cli ?w0 file m ''en''))"
    by (simp add: run)
  then have "whisper_cli w' = whisper_cli w"
    by (simp add: cli_env)
  then show ?thesis
    unfolding transcribe_file_cli_branch [OF go] run
    by (cases r) simp_all
qed

lemma transcribe_file_cli_mode_returns:
  assumes "\<forall>cmd. whisper_cli w cmd = Exited 0 out"
  shows "\<exists>v. snd (transcribe_file w file m force True) = Inr v"
proof (cases "path_exists w (file @ ''.transcribed.txt'') \<and> \<not> force")
  case True
  then show ?thesis
    by (simp add: transcribe_file_def Let_def)
next
  case False
  then have go: "force \<or> \<not> path_exists w (file @ ''.transcribed.txt'')" by auto
  show ?thesis
    using assms by (simp add: driver_cli_result [OF go])
qed

text \<open>The loop of the command, against the calls it is made of.\<close>

lemma world_after_Nil [simp]: "world_after w [] m force climode = w"
  by (simp add: world_after_def)

lemma world_after_Cons [simp]:
  "world_after w (f # fs) m force climode
     = world_after (fst (transcribe_file w f m force climode)) fs m force climode"
  by (simp add: world_after_def)

lemma call_result_0 [simp]:
  "call_result w (f # fs) m force climode 0 = snd (transcribe_file w f m force climode)"
  by (simp add: call_result_def)

lemma call_result_Suc [simp]:
  "call_result w (f # fs) m force climode (Suc i)
     = call_result (fst (transcribe_file w f m force climode)) fs m force climode i"
  by (simp add: call_result_def)

lemma world_after_attempted:
  "attempted (stdout (world_after w fs m force climode)) = attempted (stdout w) @ fs"
  by (induction fs arbitrary: w) (simp_all add: transcribe_file_attempted)

lemma transcribe_loop_all_return:
  "\<forall>i<length fs. \<exists>v. call_result w fs m force climode i = Inr v \<Longrightarrow>
   transcribe_loop w fs m force climode = (world_after w fs m force climode, Inr ())"
proof (induction fs arbitrary: w)
  case Nil
  then show ?case by simp
next
  case (Cons f fs)
  obtain w' r where step: "transcribe_file w f m force climode = (w', r)"
    by fastforce
  from Cons.prems have "\<exists>v. call_result w (f # fs) m force climode 0 = Inr v"
    by blast
  then obtain v where r: "r = Inr v"
    by (auto simp: step)
  have "\<forall>i<length fs. \<exists>v. call_result w' fs m force climode i = Inr v"
  proof (intro allI impI)
    fix i assume "i < length fs"
    then have "\<exists>v. call_result w (f # fs) m force climode (Suc i) = Inr v"
      using Cons.prems by auto
    then show "\<exists>v. call_result w' fs m force climode i = Inr v"
      by (simp add: step)
  qed
  then have "transcribe_loop w' fs m force climode = (world_after w' fs m force climode, Inr ())"
    by (rule Cons.IH)
  then show ?case
    by (simp add: step r)
qed

lemma transcribe_loop_first_raise:
  "k < length fs \<Longrightarrow> \<forall>i<k. \<exists>v. call_result w fs m force climode i = Inr v \<Longrightarrow>
   call_result w fs m force climode k = Inl e \<Longrightarrow>
   transcribe_loop w fs m force climode = (world_after w (take (Suc k) fs) m force climode, Inl e)"
proof (induction fs arbitrary: w k)
  case Nil
  then show ?case by simp
next
  case (Cons f fs)
  obtain w' r where step: "transcribe_file w f m force climode = (w', r)"
    by fastforce
  show ?case
  proof (cases k)
    case 0
    with Cons.prems(3) have "r = Inl e"
      by (simp add: step)
    then show ?thesis
      using 0 by (simp add: step)
  next
    case (Suc j)
    with Cons.prems(2) have "\<exists>v. call_result w (f # fs) m force climode 0 = Inr v"
      by blast
    then obtain v where r: "r = Inr v"
      by (auto simp: step)
    have j: "j < length fs"
      using Cons.prems(1) Suc by simp
    have before: "\<forall>i<j. \<exists>v. call_result w' fs m force climode i = Inr v"
    proof (intro allI impI)
      fix i assume "i < j"
      then have "\<exists>v. call_result w (f # fs) m force climode (Suc i) = Inr v"
        using Cons.prems(2) Suc by auto
      then show "\<exists>v. call_result w' fs m force climode i = Inr v"
        by (simp add: step)
    qed
    have at: "call_result w' fs m force climode j = Inl e"
      using Cons.prems(3) Suc by (simp add: step)
    have "transcribe_loop w' fs m force climode
            = (world_after w' (take (Suc j) fs) m force climode, Inl e)"
      using j before at by (rule Cons.IH)
    then show ?thesis
      using Suc by (simp add: step r)
  qed
qed

lemma raising_call_output_absent:
  assumes "call_result w fs m False climode k = Inl e"
  shows "\<not> path_exists (world_after w (take k fs) m False climode) (fs ! k @ ''.transcribed.txt'')"
proof
  assume "path_exists (world_after w (take k fs) m False climode) (fs ! k @ ''.transcribed.txt'')"
  then have "snd (transcribe_file (world_after w (take k fs) m False climode) (fs ! k) m False climode)
               = Inr (PStr (fs ! k @ ''.transcribed.txt''))"
    by (simp add: transcribe_file_skip)
  with assms show False
    by (simp add: call_result_def)
qed

lemma raising_call_not_skipped:
  assumes "call_result w fs m force climode k = Inl e"
  shows "call_state w fs m force climode k = Failed"
proof (cases force)
  case True
  with assms show ?thesis
    by (simp add: call_state_def)
next
  case False
  with assms have "call_result w fs m False climode k = Inl e"
    by simp
  from raising_call_output_absent [OF this] this False show ?thesis
    by (simp add: call_state_def)
qed

lemma call_state_not_Pending: "call_state w fs m force climode i \<in> {Skipped, Transcribed, Failed}"
  by (simp add: call_state_def split: sum.splits)

lemma first_raise_cases:
  "(\<forall>i<length fs. \<exists>v. call_result w fs m force climode i = Inr v)
   \<or> (\<exists>k e. k < length fs \<and> (\<forall>i<k. \<exists>v. call_result w fs m force climode i = Inr v)
          \<and> call_result w fs m force climode k = Inl e)"
proof (cases "\<forall>i<length fs. \<exists>v. call_result w fs m force climode i = Inr v")
  case True
  then show ?thesis by simp
next
  case False
  define bad where "bad i \<longleftrightarrow> i < length fs \<and> (\<forall>v. call_result w fs m force climode i \<noteq> Inr v)" for i
  from False have "\<exists>i. bad i" by (auto simp: bad_def)
  then obtain k where k: "bad k" and least: "\<forall>i<k. \<not> bad i"
    using exists_least_iff [of bad] by auto
  from k obtain e where "call_result w fs m force climode k = Inl e"
    unfolding bad_def by (cases "call_result w fs m force climode k") auto
  moreover have "\<forall>i<k. \<exists>v. call_result w fs m force climode i = Inr v"
    using least k unfolding bad_def by (meson less_trans)
  ultimately show ?thesis
    using k unfolding bad_def by blast
qed

lemma world_after_whisper_cli:
  "whisper_cli (world_after w fs m force True) = whisper_cli w"
  by (induction fs arbitrary: w) (simp_all add: transcribe_file_whisper_cli)

lemma call_result_cli_mode_returns:
  assumes "\<forall>cmd. whisper_cli w cmd = Exited 0 out"
  shows "\<exists>v. call_result w fs m force True i = Inr v"
  unfolding call_result_def
  by (rule transcribe_file_cli_mode_returns) (simp add: world_after_whisper_cli assms)

lemma transcription_runs_snoc:
  "calls w' = calls w @ cs \<Longrightarrow> transcription_runs w' = transcription_runs w + length (filter is_run cs)"
  by (simp add: transcription_runs_def)

subsection \<open>The example worlds\<close>

lemma names_file_examples:
  "names_file ''a.wav''" "names_file ''media/b.wav''"
  by (simp_all add: names_file_def slash_def)

lemma demo_world_fields:
  "files demo_world = Map.empty" "calls demo_world = []" "stdout demo_world = []"
  "whisper_cli demo_world = (\<lambda>cmd. Exited 0 ''hello world'')"
  "load_model demo_world = (\<lambda>m. None)"
  "model_transcribe demo_world =
     (\<lambda>m f. Inr (PDict [(''text'', PStr ''hello from the model''), (''language'', PStr ''en'')]))"
  by (simp_all add: demo_world_def)

lemma transcribed_world_fields:
  "files transcribed_world = [locate ''media/b.wav.transcribed.txt'' \<mapsto> ''old text'']"
  "calls transcribed_world = []"
  "whisper_cli transcribed_world = (\<lambda>cmd. Exited 0 ''hello world'')"
  "load_model transcribed_world = (\<lambda>m. None)"
  "model_transcribe transcribed_world =
     (\<lambda>m f. Inr (PDict [(''text'', PStr ''hello from the model''), (''language'', PStr ''en'')]))"
  by (simp_all add: transcribed_world_def demo_world_def)

lemma demo_listing_cmproj:
  "get_files_recursive demo_world ''media'' None (Some ''.cmproj'') None
     = Inr [''media/skip_me/a.wav'', ''media/b.wav'', ''media/talks/d.mp4'']"
  by (simp add: get_files_recursive_def matching_Compiled re_match_default demo_world_def
      media_path_def chomp_def endswith_def media_extensions_def newline_def)

lemma demo_first_transcribed:
  "file_state demo_world [''media/skip_me/a.wav'', ''media/b.wav'', ''media/talks/d.mp4'']
     ''base.en'' False True 3 0 = Transcribed"
proof -
  have go: "False \<or> \<not> path_exists demo_world (''media/skip_me/a.wav'' @ ''.transcribed.txt'')"
    by (simp add: path_exists_def demo_world_fields)
  have "call_result demo_world [''media/skip_me/a.wav'', ''media/b.wav'', ''media/talks/d.mp4'']
          ''base.en'' False True 0
        = Inr (CompletedProcess (whisper_command ''media/skip_me/a.wav'' ''base.en'' ''en'') 0)"
    using driver_cli_result [OF go, of "''base.en''"] by (simp add: demo_world_fields)
  then show ?thesis
    using go by (simp add: file_state_def call_state_def)
qed

lemma transcribed_second_skipped:
  "file_state transcribed_world [''media/skip_me/a.wav'', ''media/b.wav'', ''media/talks/d.mp4'']
     ''base.en'' False True 3 1 = Skipped"
proof -
  have go: "False \<or> \<not> path_exists transcribed_world (''media/skip_me/a.wav'' @ ''.transcribed.txt'')"
    by (simp add: path_exists_def transcribed_world_fields locate_def path_parts_def slash_def)
  have nf: "names_file ''media/skip_me/a.wav''"
    by (simp add: names_file_def slash_def)
  have "path_exists (fst (transcribe_file transcribed_world ''media/skip_me/a.wav'' ''base.en'' False True))
          ''media/b.wav.transcribed.txt''"
    by (simp add: path_exists_def driver_cli_files [OF go nf] transcribed_world_fields)
  then show ?thesis
    by (simp add: file_state_def call_state_def)
qed

section \<open>The transcription driver: the claims\<close>

text \<open>
  Claim C2. When the output path \<^verbatim>\<open>file + ".transcribed.txt"\<close> exists and force is false,
  \<^verbatim>\<open>transcribe_file\<close> returns that path and changes neither a file nor the list of
  engine calls, in either strategy: no transcription is made. Hence two calls in a row as
  the claim writes them, \<^verbatim>\<open>transcribe_file(f, force=False)\<close> with the default
  external-process strategy: when the output is absent at first and the executable exits
  with 0, the first call runs the executable once on the file, returns its
  \<open>CompletedProcess\<close> and leaves the output file with the transcript the executable
  wrote, no other file changed; the second call returns the output path, makes no engine
  call, changes no file and prints only the two lines of the skip branch.
\<close>

theorem skip_policy_idempotent:
  "(path_exists w (file @ ''.transcribed.txt'') \<longrightarrow>
      snd (transcribe_file w file m False climode) = Inr (PStr (file @ ''.transcribed.txt''))
      \<and> files (fst (transcribe_file w file m False climode)) = files w
      \<and> calls (fst (transcribe_file w file m False climode)) = calls w)
   \<and> (\<not> path_exists w (file @ ''.transcribed.txt'') \<and> names_file file
        \<and> whisper_cli w (whisper_command file m ''en'') = Exited 0 text \<longrightarrow>
      (let first = transcribe_file w file m False True;
           w1 = fst first;
           second = transcribe_file w1 file m False True
       in snd first = Inr (CompletedProcess (whisper_command file m ''en'') 0)
          \<and> calls w1 = calls w @ [RunProcess (whisper_command file m ''en'')]
          \<and> files w1 = (files w)(locate (file @ ''.transcribed.txt'') \<mapsto> text)
          \<and> snd second = Inr (PStr (file @ ''.transcribed.txt''))
          \<and> files (fst second) = files w1
          \<and> calls (fst second) = calls w1
          \<and> stdout (fst second) = stdout w1 @ [Attempting file, Skipping file]))"
proof -
  have skip: "snd (transcribe_file v file m False c) = Inr (PStr (file @ ''.transcribed.txt''))
      \<and> files (fst (transcribe_file v file m False c)) = files v
      \<and> calls (fst (transcribe_file v file m False c)) = calls v
      \<and> stdout (fst (transcribe_file v file m False c)) = stdout v @ [Attempting file, Skipping file]"
    if "path_exists v (file @ ''.transcribed.txt'')" for v c
    using that by (simp add: transcribe_file_skip)
  have twice: "snd (transcribe_file w file m False True)
                 = Inr (CompletedProcess (whisper_command file m ''en'') 0)
      \<and> calls (fst (transcribe_file w file m False True))
                 = calls w @ [RunProcess (whisper_command file m ''en'')]
      \<and> files (fst (transcribe_file w file m False True))
                 = (files w)(locate (file @ ''.transcribed.txt'') \<mapsto> text)
      \<and> path_exists (fst (transcribe_file w file m False True)) (file @ ''.transcribed.txt'')"
    if absent: "\<not> path_exists w (file @ ''.transcribed.txt'')" and nf: "names_file file"
      and ok: "whisper_cli w (whisper_command file m ''en'') = Exited 0 text"
  proof -
    from absent have go: "False \<or> \<not> path_exists w (file @ ''.transcribed.txt'')" by simp
    have "files (fst (transcribe_file w file m False True))
                 = (files w)(locate (file @ ''.transcribed.txt'') \<mapsto> text)"
      by (simp add: driver_cli_files [OF go nf] ok captured_stdout_def)
    moreover from this
    have "path_exists (fst (transcribe_file w file m False True)) (file @ ''.transcribed.txt'')"
      by (simp add: path_exists_def)
    ultimately show ?thesis
      by (simp add: driver_cli_result [OF go] driver_cli_calls [OF go] ok)
  qed
  show ?thesis
    using skip [of w climode] twice skip [of "fst (transcribe_file w file m False True)" True]
    by (simp add: Let_def)
qed

text \<open>
  With an earlier transcript the call only returns its path. Without one, the first of
  two calls runs the executable once and writes its output \<^verbatim>\<open>hello world\<close> to the
  output file; the second returns the path of that file and leaves it as it is.
\<close>

theorem skip_policy_idempotent_witness:
  "path_exists transcribed_world ''media/b.wav.transcribed.txt''
   \<and> snd (transcribe_file transcribed_world ''media/b.wav'' ''base.en'' False False)
       = Inr (PStr ''media/b.wav.transcribed.txt'')
   \<and> files (fst (transcribe_file transcribed_world ''media/b.wav'' ''base.en'' False False))
       = files transcribed_world
   \<and> calls (fst (transcribe_file transcribed_world ''media/b.wav'' ''base.en'' False False)) = []
   \<and> \<not> path_exists demo_world ''media/b.wav.transcribed.txt''
   \<and> names_file ''media/b.wav''
   \<and> whisper_cli demo_world (whisper_command ''media/b.wav'' ''base.en'' ''en'')
       = Exited 0 ''hello world''
   \<and> (let first = transcribe_file demo_world ''media/b.wav'' ''base.en'' False True;
           w1 = fst first;
           second = transcribe_file w1 ''media/b.wav'' ''base.en'' False True
       in snd first = Inr (CompletedProcess (whisper_command ''media/b.wav'' ''base.en'' ''en'') 0)
          \<and> calls w1 = [RunProcess (whisper_command ''media/b.wav'' ''base.en'' ''en'')]
          \<and> files w1 = [locate ''media/b.wav.transcribed.txt'' \<mapsto> ''hello world'']
          \<and> snd second = Inr (PStr ''media/b.wav.transcribed.txt'')
          \<and> files (fst second) = files w1
          \<and> calls (fst second) = calls w1)"
proof -
  have there: "path_exists transcribed_world (''media/b.wav'' @ ''.transcribed.txt'')"
    by (simp add: path_exists_def transcribed_world_fields)
  have absent: "\<not> path_exists demo_world (''media/b.wav'' @ ''.transcribed.txt'')"
    by (simp add: path_exists_def demo_world_fields)
  have run: "whisper_cli demo_world (whisper_command ''media/b.wav'' ''base.en'' ''en'')
       = Exited 0 ''hello world''"
    by (simp add: demo_world_fields)
  show ?thesis
    using skip_policy_idempotent [of transcribed_world "''media/b.wav''" "''base.en''" False]
      skip_policy_idempotent [of demo_world "''media/b.wav''" "''base.en''" True "''hello world''"]
      there absent run names_file_examples(2)
    by (simp add: transcribed_world_fields demo_world_fields Let_def)
qed

text \<open>
  Claim C3. In the in-process strategy (\<^verbatim>\<open>climode=False\<close>, the skip branch not taken),
  when the engine raises a \<open>RuntimeError\<close>, in loading the model or in running it,
  \<^verbatim>\<open>transcribe_file\<close> does not raise: it returns the input path, and no file is
  created or changed, so an earlier transcript stays as it was.
\<close>

theorem in_process_failure_returns_input:
  assumes "force \<or> \<not> path_exists w (file @ ''.transcribed.txt'')"
    and "load_model w m = Some (RuntimeError msg)
         \<or> (load_model w m = None \<and> model_transcribe w m file = Inl (RuntimeError msg))"
  shows "snd (transcribe_file w file m force False) = Inr (PStr file)
         \<and> files (fst (transcribe_file w file m force False)) = files w"
  using driver_try_raises [OF assms] by simp

text \<open>
  The model raises \<open>RuntimeError\<close>; the call with the default \<^verbatim>\<open>force=True\<close> returns
  the input path and the earlier transcript still reads \<^verbatim>\<open>old text\<close>.
\<close>

theorem in_process_failure_returns_input_witness:
  "model_transcribe broken_model_world ''large'' ''media/b.wav'' = Inl (RuntimeError ''out of memory'')
   \<and> load_model broken_model_world ''large'' = None
   \<and> snd (transcribe_file broken_model_world ''media/b.wav'' ''large'' True False)
       = Inr (PStr ''media/b.wav'')
   \<and> files (fst (transcribe_file broken_model_world ''media/b.wav'' ''large'' True False))
        (locate ''media/b.wav.transcribed.txt'') = Some ''old text''"
proof -
  have raises: "load_model broken_model_world ''large'' = Some (RuntimeError ''out of memory'')
         \<or> (load_model broken_model_world ''large'' = None
             \<and> model_transcribe broken_model_world ''large'' ''media/b.wav''
                 = Inl (RuntimeError ''out of memory''))"
    by (simp add: broken_model_world_def transcribed_world_def demo_world_def)
  have old: "files broken_model_world (locate ''media/b.wav.transcribed.txt'') = Some ''old text''"
    and env: "load_model broken_model_world ''large'' = None"
      "model_transcribe broken_model_world ''large'' ''media/b.wav''
         = Inl (RuntimeError ''out of memory'')"
    by (simp_all add: broken_model_world_def transcribed_world_def demo_world_def)
  show ?thesis
    using in_process_failure_returns_input [OF _ raises, of True] env old
    by simp
qed

text \<open>
  Claim C4 does not hold of the code. When the model call returns its result dictionary,
  the text is written to the output path and the JSON side file is created, but
  \<^verbatim>\<open>jf.write(result)\<close> is given the dictionary, not a string: it raises \<open>TypeError\<close>,
  which the handler for \<open>RuntimeError\<close> does not catch. The side file stays empty and
  no path is returned.
\<close>

theorem json_sidecar_write_raises:
  "snd (transcribe_file demo_world ''media/b.wav'' ''large'' True False)
     = Inl (TypeError ''write() argument must be str'')
   \<and> files (fst (transcribe_file demo_world ''media/b.wav'' ''large'' True False))
        (locate ''media/b.wav.transcribed.txt'') = Some ''hello from the model''
   \<and> files (fst (transcribe_file demo_world ''media/b.wav'' ''large'' True False))
        (locate ''media/b.wav.transcribed.txt.json'') = Some []"
proof -
  have "transcribe_file demo_world ''media/b.wav'' ''large'' True False =
     (open_w (''media/b.wav'' @ ''.transcribed.txt'' @ ''.json'')
        (print (TranscribedComplete (''media/b.wav'' @ ''.transcribed.txt''))
           (append_to (''media/b.wav'' @ ''.transcribed.txt'') ''hello from the model''
              (open_w (''media/b.wav'' @ ''.transcribed.txt'')
                 (transcribed ''media/b.wav'' ''large'' (announce ''media/b.wav'' True demo_world))))),
      Inl (TypeError ''write() argument must be str''))"
    by (rule driver_try_text_written
          [where res = "PDict [(''text'', PStr ''hello from the model''), (''language'', PStr ''en'')]"])
       (simp_all add: demo_world_fields)
  moreover have "locate (''media/b.wav.transcribed.txt'' @ ''.json'') \<noteq> locate ''media/b.wav.transcribed.txt''"
    by (rule locate_json_neq)
  ultimately show ?thesis
    by (simp add: transcribed_def loaded_def)
qed

text \<open>
  Claim C5. When the output file exists and force is true, the call as the claim writes
  it, \<^verbatim>\<open>transcribe_file(f, force=True)\<close> with the default external-process strategy,
  does not skip: the executable is run once more and the output file holds what this run
  wrote, whatever it held before. In the in-process strategy, when the model returns a
  result with a text, the output file holds that text and the model was run once more.
\<close>

theorem force_regenerates_output:
  assumes "files w (locate (file @ ''.transcribed.txt'')) = Some old" and "names_file file"
  shows "files (fst (transcribe_file w file m True True)) (locate (file @ ''.transcribed.txt''))
           = Some (captured_stdout (whisper_cli w (whisper_command file m ''en'')))
         \<and> transcription_runs (fst (transcribe_file w file m True True))
           = Suc (transcription_runs w)
         \<and> (load_model w m = None \<and> model_transcribe w m file = Inr res
              \<and> subscript res ''text'' = Inr (PStr t) \<longrightarrow>
            files (fst (transcribe_file w file m True False)) (locate (file @ ''.transcribed.txt''))
              = Some t
            \<and> transcription_runs (fst (transcribe_file w file m True False))
              = Suc (transcription_runs w))"
proof -
  have go: "True \<or> \<not> path_exists w (file @ ''.transcribed.txt'')" by simp
  have cli: "files (fst (transcribe_file w file m True True)) (locate (file @ ''.transcribed.txt''))
           = Some (captured_stdout (whisper_cli w (whisper_command file m ''en'')))"
    by (simp add: driver_cli_files [OF go assms(2)])
  have runs: "transcription_runs (fst (transcribe_file w file m True True))
           = Suc (transcription_runs w)"
    using transcription_runs_snoc [OF driver_cli_calls [OF go]] by simp
  have lib: "files (fst (transcribe_file w file m True False)) (locate (file @ ''.transcribed.txt''))
              = Some t
            \<and> transcription_runs (fst (transcribe_file w file m True False))
              = Suc (transcription_runs w)"
    if "load_model w m = None" "model_transcribe w m file = Inr res"
      "subscript res ''text'' = Inr (PStr t)"
  proof -
    have neq: "locate ((file @ ''.transcribed.txt'') @ ''.json'') \<noteq> locate (file @ ''.transcribed.txt'')"
      by (rule locate_json_neq)
    have "calls (fst (transcribe_file w file m True False))
            = calls w @ [LoadModel m, ModelTranscribe m file]"
      using that(1) by (simp add: driver_try_fst [OF go] try_calls)
    then have "transcription_runs (fst (transcribe_file w file m True False))
              = Suc (transcription_runs w)"
      using transcription_runs_snoc by fastforce
    moreover have "files (fst (transcribe_file w file m True False)) (locate (file @ ''.transcribed.txt''))
              = Some t"
      using neq by (simp add: driver_try_text_written [OF go that] transcribed_def loaded_def)
    ultimately show ?thesis by simp
  qed
  from cli runs lib show ?thesis by blast
qed

text \<open>
  The earlier transcript \<^verbatim>\<open>old text\<close> is replaced by the new one, in both strategies.
\<close>

theorem force_regenerates_output_witness:
  "files transcribed_world (locate ''media/b.wav.transcribed.txt'') = Some ''old text''
   \<and> names_file ''media/b.wav''
   \<and> files (fst (transcribe_file transcribed_world ''media/b.wav'' ''large'' True True))
        (locate ''media/b.wav.transcribed.txt'') = Some ''hello world''
   \<and> transcription_runs (fst (transcribe_file transcribed_world ''media/b.wav'' ''large'' True True)) = 1
   \<and> files (fst (transcribe_file transcribed_world ''media/b.wav'' ''large'' True False))
        (locate ''media/b.wav.transcribed.txt'') = Some ''hello from the model''"
proof -
  have old: "files transcribed_world (locate (''media/b.wav'' @ ''.transcribed.txt'')) = Some ''old text''"
    by (simp add: transcribed_world_fields)
  have runs: "transcription_runs transcribed_world = 0"
    by (simp add: transcription_runs_def transcribed_world_fields)
  show ?thesis
    using force_regenerates_output [OF old names_file_examples(2), of "''large''"
        "PDict [(''text'', PStr ''hello from the model''), (''language'', PStr ''en'')]"
        "''hello from the model''"]
      old runs names_file_examples(2)
    by (simp add: transcribed_world_fields captured_stdout_def)
qed

text \<open>
  Claim C6. For a path that names a file, \<^verbatim>\<open>transcribe_file_cli\<close> writes to the
  location of the input path with \<^verbatim>\<open>.transcribed.txt\<close> appended, and to no other: after
  the run that file holds exactly the standard output of the executable. (The code builds
  the path from parent, stem and suffix, \<^verbatim>\<open>./a.wav.transcribed.txt\<close> for \<^verbatim>\<open>a.wav\<close>:
  another string for the same location.)
\<close>

theorem cli_output_naming:
  assumes "names_file file"
    and "whisper_cli w (whisper_command file modelType language) = Exited rc out"
  shows "files (fst (transcribe_file_cli w file modelType language))
           = (files w)(locate (file @ ''.transcribed.txt'') \<mapsto> out)"
  using assms by (simp add: cli_files locate_output_file captured_stdout_def)

text \<open>
  The example of the claim: for \<^verbatim>\<open>a.wav\<close> the file \<^verbatim>\<open>a.wav.transcribed.txt\<close> holds
  the output of the executable.
\<close>

theorem cli_output_naming_witness:
  "names_file ''a.wav''
   \<and> whisper_cli demo_world (whisper_command ''a.wav'' ''base.en'' ''en'') = Exited 0 ''hello world''
   \<and> files (fst (transcribe_file_cli demo_world ''a.wav'' ''base.en'' ''en''))
        (locate ''a.wav.transcribed.txt'') = Some ''hello world''"
proof -
  have run: "whisper_cli demo_world (whisper_command ''a.wav'' ''base.en'' ''en'') = Exited 0 ''hello world''"
    by (simp add: demo_world_def)
  show ?thesis
    using cli_output_naming [OF names_file_examples(1) run] run names_file_examples(1)
    by simp
qed

text \<open>
  Claim C7. When the executable exits with a non-zero return code,
  \<^verbatim>\<open>transcribe_file_cli\<close> raises \<open>CalledProcessError\<close>; the executable was run exactly
  once (no retry), and the output file is left in place with what the executable wrote
  (no cleanup).
\<close>

theorem cli_failure_propagates:
  assumes "whisper_cli w (whisper_command file modelType language) = Exited rc out"
    and "rc \<noteq> 0" and "names_file file"
  shows "snd (transcribe_file_cli w file modelType language)
           = Inl (CalledProcessError rc (whisper_command file modelType language))
         \<and> calls (fst (transcribe_file_cli w file modelType language))
           = calls w @ [RunProcess (whisper_command file modelType language)]
         \<and> files (fst (transcribe_file_cli w file modelType language))
             (locate (file @ ''.transcribed.txt'')) = Some out"
  using assms by (simp add: cli_result cli_calls cli_files locate_output_file captured_stdout_def)

text \<open>
  The executable writes \<^verbatim>\<open>partial\<close> and exits with 1: the error is raised after one
  run, and the output file holds \<^verbatim>\<open>partial\<close>.
\<close>

theorem cli_failure_propagates_witness:
  "whisper_cli failing_cli_world (whisper_command ''media/b.wav'' ''base.en'' ''en'') = Exited 1 ''partial''
   \<and> names_file ''media/b.wav''
   \<and> snd (transcribe_file_cli failing_cli_world ''media/b.wav'' ''base.en'' ''en'')
       = Inl (CalledProcessError 1 (whisper_command ''media/b.wav'' ''base.en'' ''en''))
   \<and> calls (fst (transcribe_file_cli failing_cli_world ''media/b.wav'' ''base.en'' ''en''))
       = [RunProcess (whisper_command ''media/b.wav'' ''base.en'' ''en'')]
   \<and> files (fst (transcribe_file_cli failing_cli_world ''media/b.wav'' ''base.en'' ''en''))
        (locate ''media/b.wav.transcribed.txt'') = Some ''partial''"
proof -
  have run: "whisper_cli failing_cli_world (whisper_command ''media/b.wav'' ''base.en'' ''en'') = Exited 1 ''partial''"
    by (simp add: failing_cli_world_def demo_world_def)
  have "calls failing_cli_world = []"
    by (simp add: failing_cli_world_def demo_world_def)
  then show ?thesis
    using cli_failure_propagates [OF run _ names_file_examples(2)] run names_file_examples(2)
    by simp
qed

text \<open>
  Claim C9, as amended. The \<^verbatim>\<open>transcribe\<close> command passes the files that
  \<^verbatim>\<open>get_files_recursive(directory, pattern, ignore)\<close> returns to \<^verbatim>\<open>transcribe_file\<close>
  one at a time, in the order of the list, and stops at the first call that raises.
  \<^item> When no call raises, the command returns in the world the calls on all the files
    leave: exactly the files of the list were processed, each entry once, and each is
    \<open>Skipped\<close>, \<open>Transcribed\<close> or \<open>Failed\<close>.
  \<^item> When the call on entry \<open>k\<close> is the first to raise, the command raises the same
    exception in the world the calls on the entries up to \<open>k\<close> leave: exactly these
    entries were processed, each once; entry \<open>k\<close> is \<open>Failed\<close>, the entries before it
    are \<open>Skipped\<close>, \<open>Transcribed\<close> or \<open>Failed\<close>, and the entries after it stay
    \<open>Pending\<close>.
  One of the two cases always holds (\<open>first_raise_cases\<close>), so the result and the final
  world of the command are fixed by the calls it is made of.
\<close>

theorem transcribe_sequential_until_raise:
  assumes "get_files_recursive w directory (map_option Plain pattern) (Some ignore) None = Inr fs"
  shows
    "((\<forall>i<length fs. \<exists>v. call_result w fs model force climode i = Inr v) \<longrightarrow>
        transcribe w directory pattern ignore model force climode
          = (world_after w fs model force climode, Inr ())
        \<and> attempted (stdout (world_after w fs model force climode)) = attempted (stdout w) @ fs
        \<and> (\<forall>i<length fs.
              file_state w fs model force climode (length fs) i \<in> {Skipped, Transcribed, Failed}))
     \<and> (\<forall>k e. k < length fs
            \<and> (\<forall>i<k. \<exists>v. call_result w fs model force climode i = Inr v)
            \<and> call_result w fs model force climode k = Inl e \<longrightarrow>
        transcribe w directory pattern ignore model force climode
          = (world_after w (take (Suc k) fs) model force climode, Inl e)
        \<and> attempted (stdout (world_after w (take (Suc k) fs) model force climode))
          = attempted (stdout w) @ take (Suc k) fs
        \<and> (\<forall>i<k. file_state w fs model force climode (Suc k) i \<in> {Skipped, Transcribed, Failed})
        \<and> file_state w fs model force climode (Suc k) k = Failed
        \<and> (\<forall>i. k < i \<and> i < length fs \<longrightarrow> file_state w fs model force climode (Suc k) i = Pending))"
proof (intro conjI allI impI)
  assume all: "\<forall>i<length fs. \<exists>v. call_result w fs model force climode i = Inr v"
  show "transcribe w directory pattern ignore model force climode
          = (world_after w fs model force climode, Inr ())"
    using assms transcribe_loop_all_return [OF all] by (simp add: transcribe_def)
  show "attempted (stdout (world_after w fs model force climode)) = attempted (stdout w) @ fs"
    by (rule world_after_attempted)
  fix i assume "i < length fs"
  then show "file_state w fs model force climode (length fs) i \<in> {Skipped, Transcribed, Failed}"
    using call_state_not_Pending [of w fs model force climode i] by (simp add: file_state_def)
next
  fix k e
  assume h: "k < length fs \<and> (\<forall>i<k. \<exists>v. call_result w fs model force climode i = Inr v)
            \<and> call_result w fs model force climode k = Inl e"
  then have k: "k < length fs" and before: "\<forall>i<k. \<exists>v. call_result w fs model force climode i = Inr v"
    and at: "call_result w fs model force climode k = Inl e"
    by simp_all
  show "transcribe w directory pattern ignore model force climode
          = (world_after w (take (Suc k) fs) model force climode, Inl e)"
    using assms transcribe_loop_first_raise [OF k before at] by (simp add: transcribe_def)
  show "attempted (stdout (world_after w (take (Suc k) fs) model force climode))
          = attempted (stdout w) @ take (Suc k) fs"
    by (rule world_after_attempted)
  show "file_state w fs model force climode (Suc k) k = Failed"
    using raising_call_not_skipped [OF at] by (simp add: file_state_def)
  show "file_state w fs model force climode (Suc k) i \<in> {Skipped, Transcribed, Failed}"
    if "i < k" for i
    using that call_state_not_Pending [of w fs model force climode i] by (simp add: file_state_def)
  show "file_state w fs model force climode (Suc k) i = Pending"
    if "k < i \<and> i < length fs" for i
    using that by (simp add: file_state_def)
qed

text \<open>
  In the example directory, when the executable succeeds on every file the command
  returns after all three files, and the first is \<open>Transcribed\<close>; a file with an
  earlier transcript is \<open>Skipped\<close>. When the executable exits with 1, the command
  raises after the first file, which is \<open>Failed\<close>, and the other two stay
  \<open>Pending\<close>.
\<close>

theorem transcribe_sequential_until_raise_witness:
  "get_files_recursive demo_world ''media'' (map_option Plain None) (Some ''.cmproj'') None
     = Inr [''media/skip_me/a.wav'', ''media/b.wav'', ''media/talks/d.mp4'']
   \<and> transcribe demo_world ''media'' None ''.cmproj'' ''base.en'' False True
     = (world_after demo_world [''media/skip_me/a.wav'', ''media/b.wav'', ''media/talks/d.mp4'']
          ''base.en'' False True, Inr ())
   \<and> attempted (stdout (fst (transcribe demo_world ''media'' None ''.cmproj'' ''base.en'' False True)))
     = [''media/skip_me/a.wav'', ''media/b.wav'', ''media/talks/d.mp4'']
   \<and> call_result failing_cli_world [''media/skip_me/a.wav'', ''media/b.wav'', ''media/talks/d.mp4'']
        ''base.en'' False True 0
     = Inl (CalledProcessError 1 (whisper_command ''media/skip_me/a.wav'' ''base.en'' ''en''))
   \<and> transcribe failing_cli_world ''media'' None ''.cmproj'' ''base.en'' False True
     = (world_after failing_cli_world [''media/skip_me/a.wav''] ''base.en'' False True,
        Inl (CalledProcessError 1 (whisper_command ''media/skip_me/a.wav'' ''base.en'' ''en'')))
   \<and> attempted (stdout (fst (transcribe failing_cli_world ''media'' None ''.cmproj'' ''base.en'' False True)))
     = [''media/skip_me/a.wav'']
   \<and> file_state failing_cli_world [''media/skip_me/a.wav'', ''media/b.wav'', ''media/talks/d.mp4'']
        ''base.en'' False True 1 0 = Failed
   \<and> file_state failing_cli_world [''media/skip_me/a.wav'', ''media/b.wav'', ''media/talks/d.mp4'']
        ''base.en'' False True 1 1 = Pending
   \<and> file_state failing_cli_world [''media/skip_me/a.wav'', ''media/b.wav'', ''media/talks/d.mp4'']
        ''base.en'' False True 1 2 = Pending
   \<and> file_state demo_world [''media/skip_me/a.wav'', ''media/b.wav'', ''media/talks/d.mp4'']
        ''base.en'' False True 3 0 = Transcribed
   \<and> file_state transcribed_world [''media/skip_me/a.wav'', ''media/b.wav'', ''media/talks/d.mp4'']
        ''base.en'' False True 3 1 = Skipped"
proof -
  let ?fs = "[''media/skip_me/a.wav'', ''media/b.wav'', ''media/talks/d.mp4'']"
  have listing: "get_files_recursive demo_world ''media'' (map_option Plain None) (Some ''.cmproj'') None
     = Inr ?fs"
    by (simp add: demo_listing_cmproj)
  have "\<forall>cmd. whisper_cli demo_world cmd = Exited 0 ''hello world''"
    by (simp add: demo_world_fields)
  then have all: "\<forall>i<length ?fs. \<exists>v. call_result demo_world ?fs ''base.en'' False True i = Inr v"
    using call_result_cli_mode_returns by blast
  have good: "transcribe demo_world ''media'' None ''.cmproj'' ''base.en'' False True
     = (world_after demo_world ?fs ''base.en'' False True, Inr ())
     \<and> attempted (stdout (world_after demo_world ?fs ''base.en'' False True))
         = attempted (stdout demo_world) @ ?fs"
    using transcribe_sequential_until_raise [OF listing, of "''base.en''" False True] all
    by blast
  have listing': "get_files_recursive failing_cli_world ''media'' (map_option Plain None) (Some ''.cmproj'') None
     = Inr ?fs"
    by (simp add: get_files_recursive_def matching_Compiled re_match_default failing_cli_world_def
        demo_world_def media_path_def chomp_def endswith_def media_extensions_def newline_def)
  have fields: "files failing_cli_world = Map.empty" "stdout failing_cli_world = []"
    "whisper_cli failing_cli_world = (\<lambda>cmd. Exited 1 ''partial'')"
    by (simp_all add: failing_cli_world_def demo_world_def)
  have go: "False \<or> \<not> path_exists failing_cli_world (''media/skip_me/a.wav'' @ ''.transcribed.txt'')"
    by (simp add: path_exists_def fields)
  have at: "call_result failing_cli_world ?fs ''base.en'' False True 0
     = Inl (CalledProcessError 1 (whisper_command ''media/skip_me/a.wav'' ''base.en'' ''en''))"
    using driver_cli_result [OF go, of "''base.en''"] by (simp add: fields)
  have bad: "transcribe failing_cli_world ''media'' None ''.cmproj'' ''base.en'' False True
          = (world_after failing_cli_world (take (Suc 0) ?fs) ''base.en'' False True,
             Inl (CalledProcessError 1 (whisper_command ''media/skip_me/a.wav'' ''base.en'' ''en'')))
        \<and> attempted (stdout (world_after failing_cli_world (take (Suc 0) ?fs) ''base.en'' False True))
          = attempted (stdout failing_cli_world) @ take (Suc 0) ?fs
        \<and> file_state failing_cli_world ?fs ''base.en'' False True (Suc 0) 0 = Failed
        \<and> (\<forall>i. 0 < i \<and> i < length ?fs \<longrightarrow>
              file_state failing_cli_world ?fs ''base.en'' False True (Suc 0) i = Pending)"
  proof -
    have first: "0 < length ?fs
        \<and> (\<forall>i<0. \<exists>v. call_result failing_cli_world ?fs ''base.en'' False True i = Inr v)
        \<and> call_result failing_cli_world ?fs ''base.en'' False True 0
            = Inl (CalledProcessError 1 (whisper_command ''media/skip_me/a.wav'' ''base.en'' ''en''))"
      using at by simp
    show ?thesis
      using transcribe_sequential_until_raise
        [OF listing', of "''base.en''" False True, THEN conjunct2, rule_format, OF first]
      by simp
  qed
  then have "file_state failing_cli_world ?fs ''base.en'' False True (Suc 0) 1 = Pending"
    "file_state failing_cli_world ?fs ''base.en'' False True (Suc 0) 2 = Pending"
    by simp_all
  with good bad listing at demo_first_transcribed transcribed_second_skipped show ?thesis
    by (simp add: demo_world_fields fields del: world_after_Cons call_result_0)
qed

text \<open>
  Claim C9 as stated fails: when the executable exits with 1 on the first of the three
  discovered files, the exception ends the command and the other two files are never
  passed to \<^verbatim>\<open>transcribe_file\<close>.
\<close>

theorem transcribe_stops_at_failure:
  "get_files_recursive failing_cli_world ''media'' (map_option Plain None) (Some ''.cmproj'') None
     = Inr [''media/skip_me/a.wav'', ''media/b.wav'', ''media/talks/d.mp4'']
   \<and> snd (transcribe failing_cli_world ''media'' None ''.cmproj'' ''base.en'' False True)
       = Inl (CalledProcessError 1 (whisper_command ''media/skip_me/a.wav'' ''base.en'' ''en''))
   \<and> attempted (stdout (fst (transcribe failing_cli_world ''media'' None ''.cmproj'' ''base.en'' False True)))
       = [''media/skip_me/a.wav'']"
proof -
  let ?f = "''media/skip_me/a.wav''"
  have listing: "get_files_recursive failing_cli_world ''media'' (map_option Plain None) (Some ''.cmproj'') None
     = Inr [?f, ''media/b.wav'', ''media/talks/d.mp4'']"
    by (simp add: get_files_recursive_def matching_Compiled re_match_default failing_cli_world_def
        demo_world_def media_path_def chomp_def endswith_def media_extensions_def newline_def)
  have fields: "files failing_cli_world = Map.empty" "stdout failing_cli_world = []"
    "whisper_cli failing_cli_world = (\<lambda>cmd. Exited 1 ''partial'')"
    by (simp_all add: failing_cli_world_def demo_world_def)
  have go: "False \<or> \<not> path_exists failing_cli_world (?f @ ''.transcribed.txt'')"
    by (simp add: path_exists_def fields)
  obtain w' r where step: "transcribe_file failing_cli_world ?f ''base.en'' False True = (w', r)"
    by fastforce
  have "r = Inl (CalledProcessError 1 (whisper_command ?f ''base.en'' ''en''))"
    using driver_cli_result [OF go, of "''base.en''"] by (simp add: step fields)
  moreover have "attempted (stdout w') = [?f]"
    using transcribe_file_attempted [of failing_cli_world ?f "''base.en''" False True]
    by (simp add: step fields)
  ultimately show ?thesis
    using listing by (simp add: transcribe_def step)
qed

text \<open>
  Claim C10 does not hold of the code in one of its three parts. With the external-process
  strategy \<^verbatim>\<open>transcribe_file\<close> returns the \<open>CompletedProcess\<close> object of
  \<^verbatim>\<open>transcribe_file_cli\<close>, not a path, and the skip branch returns the output path, as
  the claim says. The in-process strategy, when the model call returns, does not return
  the output path: it raises the \<open>TypeError\<close> of \<^verbatim>\<open>jf.write(result)\<close>.
\<close>

theorem return_values_by_branch:
  "snd (transcribe_file demo_world ''media/b.wav'' ''large'' True True)
     = Inr (CompletedProcess (whisper_command ''media/b.wav'' ''large'' ''en'') 0)
   \<and> snd (transcribe_file transcribed_world ''media/b.wav'' ''large'' False False)
     = Inr (PStr ''media/b.wav.transcribed.txt'')
   \<and> snd (transcribe_file demo_world ''media/b.wav'' ''large'' True False)
     = Inl (TypeError ''write() argument must be str'')"
proof -
  have cli: "snd (transcribe_file demo_world ''media/b.wav'' ''large'' True True)
     = Inr (CompletedProcess (whisper_command ''media/b.wav'' ''large'' ''en'') 0)"
    by (subst driver_cli_result) (simp_all add: demo_world_fields)
  have "path_exists transcribed_world (''media/b.wav'' @ ''.transcribed.txt'')"
    by (simp add: path_exists_def transcribed_world_fields)
  then have skip: "snd (transcribe_file transcribed_world ''media/b.wav'' ''large'' False False)
     = Inr (PStr ''media/b.wav.transcribed.txt'')"
    by (simp add: transcribe_file_skip)
  have "snd (transcribe_file demo_world ''media/b.wav'' ''large'' True False)
     = Inl (TypeError ''write() argument must be str'')"
    by (subst driver_try_text_written
          [where res = "PDict [(''text'', PStr ''hello from the model''), (''language'', PStr ''en'')]"
             and t = "''hello from the model''"])
       (simp_all add: demo_world_fields)
  with cli skip show ?thesis by simp
qed

end
